theory Spec2Isabelle
  imports Main "HOL-Library.Sublist"
begin

section \<open>Data model\<close>

text \<open>
  The embedding covers one document context and the file editor built on it:
  \<^verbatim>\<open>DocumentModel\<close> of \<^verbatim>\<open>packages/docregistry/src/default.ts\<close>, and \<^verbatim>\<open>FileEditorCodeWrapper\<close>
  and \<^verbatim>\<open>FileEditor\<close> of \<^verbatim>\<open>packages/fileeditor/src/widget.ts\<close>. \<^verbatim>\<open>FileEditor\<close> is the document
  widget that the factory returns: a tool bar and one \<^verbatim>\<open>FileEditorCodeWrapper\<close>, the widget
  that holds the editor.

  The editor widget reaches two model objects, \<^verbatim>\<open>this._context.model\<close> and
  \<^verbatim>\<open>this.editor.model\<close>. The constructor hands the context's model to the editor factory,
  whose code is not part of these sources, so the two references may or may not denote the
  same object. Model objects therefore live in a store indexed by addresses, and the
  statements below hold for both cases.

  The text of a buffer is a JavaScript string, a sequence of UTF-16 code units. The document
  model and the widgets never look inside it, so the type \<open>'c\<close> of a unit is a parameter of
  the world; \<^verbatim>\<open>toJSON\<close> and \<^verbatim>\<open>fromJSON\<close> read the units as numbers.
\<close>

type_synonym addr = nat

text \<open>\<^verbatim>\<open>IChangedArgs<any>\<close> of \<^verbatim>\<open>coreutils/src/interfaces.ts\<close>, at the boolean attributes.\<close>

record changed_args =
  name :: string
  oldValue :: bool
  newValue :: bool

text \<open>
  The signals emitted, in the order of emission. \<^verbatim>\<open>contentChanged\<close> carries no payload
  (\<^verbatim>\<open>void 0\<close>); its event records the value of \<^verbatim>\<open>_dirty\<close> at the moment of emission, which is
  what a slot reading \<^verbatim>\<open>model.dirty\<close> observes. \<open>ValueChanged a s\<close> is \<^verbatim>\<open>value.changed\<close> of the
  model object at \<open>a\<close>, emitted when its buffer is set to \<open>s\<close>.
\<close>

datatype 'c event =
    ValueChanged addr "'c list"
  | ContentChanged bool
  | StateChanged changed_args

text \<open>
  The part of \<^verbatim>\<open>CodeEditor.IModel\<close> the widgets use: \<^verbatim>\<open>value.text\<close>, \<^verbatim>\<open>mimeType\<close> and
  \<^verbatim>\<open>selections\<close>.
\<close>

record ('c, 'sel) code_model =
  value_text :: "'c list"
  mimeType :: string
  selections :: "(string \<times> 'sel) list"

record collaborator =
  sessionId :: string
  color :: string

record collaborator_map =
  localCollaborator :: collaborator
  members :: "(string \<times> collaborator) list"

record selection_style =
  className :: string
  displayName :: string
  style_color :: string

text \<open>
  One context with its document model, and the widgets on it. \<open>context_model\<close> and
  \<open>editor_model\<close> are the two references; \<open>dirty\<close>, \<open>readOnly\<close> and \<open>defaultLang\<close> are the
  private fields of the document model; \<open>isCollaborative\<close> and \<open>collaborators\<close> belong to its
  \<^verbatim>\<open>modelDB\<close>; \<open>path\<close> is \<^verbatim>\<open>context.path\<close>. The \<open>_connected\<close> flags say whether the widget's
  slot is connected to the signal. \<open>history\<close>, \<open>uuid\<close> and \<open>selectionStyle\<close> are the editor's.

  There are two titles. \<open>title_className\<close> is \<^verbatim>\<open>this.title.className\<close> of
  \<^verbatim>\<open>FileEditorCodeWrapper\<close>, the title that \<^verbatim>\<open>_handleDirtyState\<close> writes; \<open>isDisposed\<close> and
  \<open>ready_resolved\<close> are that widget's disposed flag and the state of its \<^verbatim>\<open>_ready\<close> promise.
  \<open>FileEditor_title_label\<close> and \<open>FileEditor_title_className\<close> are \<^verbatim>\<open>this.title.label\<close> and
  \<^verbatim>\<open>this.title.className\<close> of the enclosing \<^verbatim>\<open>FileEditor\<close>, and \<open>getMimeTypeByFilePath\<close> is the
  method of its \<^verbatim>\<open>_mimeTypeService\<close>, a service outside these sources.

  \<open>skip_unchanged\<close> fixes a behaviour of code that is not in the sources, see
  \<open>set_value_text\<close> below; no operation changes it.
\<close>

record ('c, 'sel) world =
  store :: "addr \<Rightarrow> ('c, 'sel) code_model"
  skip_unchanged :: bool
  context_model :: addr
  dirty :: bool
  readOnly :: bool
  defaultLang :: string
  isCollaborative :: bool
  collaborators :: "collaborator_map option"
  path :: string
  stateChanged_connected :: bool
  contentChanged_connected :: bool
  collaborators_changed_connected :: bool
  pathChanged_connected :: bool
  editor_model :: addr
  history :: "'c list list"
  uuid :: string
  selectionStyle :: selection_style
  title_className :: string
  isDisposed :: bool
  ready_resolved :: bool
  getMimeTypeByFilePath :: "string \<Rightarrow> string"
  FileEditor_title_label :: string
  FileEditor_title_className :: string
  log :: "'c event list"

section \<open>JSON values, \<^verbatim>\<open>JSON.stringify\<close> and \<^verbatim>\<open>JSON.parse\<close>\<close>

text \<open>
  \<^verbatim>\<open>toJSON\<close> and \<^verbatim>\<open>fromJSON\<close> call the two built-in functions of the JavaScript runtime, which
  are embedded here after ECMA-262 and ECMA-404.

  A string is the list of its UTF-16 code units, each a number below 65536; \<open>asc\<close> gives the
  units of an ASCII literal. A number is a value of a type \<open>'n\<close> that the embedding does
  not look into (in the runtime, an IEEE double). Two functions of the runtime are
  parameters: \<open>nts x\<close> is the text that \<^verbatim>\<open>JSON.stringify\<close> writes for the number \<open>x\<close>, and \<open>ton t\<close>
  is the number that \<^verbatim>\<open>JSON.parse\<close> reads from the number token \<open>t\<close>. Equality on \<open>'n\<close> is the
  equality of numbers in a comparison of two values. An object is the list of its members
  in the order in which the runtime enumerates its properties.
\<close>

type_synonym code_unit = nat

type_synonym js_string = "code_unit list"

definition asc :: "string \<Rightarrow> js_string" where
  "asc s = map of_char s"

datatype 'n json =
    JNull
  | JBool bool
  | JNumber 'n
  | JString js_string
  | JArray "'n json list"
  | JObject "(js_string \<times> 'n json) list"

datatype error = SyntaxError

subsection \<open>\<^verbatim>\<open>JSON.stringify\<close>\<close>

text \<open>
  \<^verbatim>\<open>QuoteJSONString\<close>: the two-character escapes, \<^verbatim>\<open>\u00xx\<close> with lower-case digits for the
  other control units, and \<^verbatim>\<open>\udxxx\<close> for a surrogate that is not part of a pair. A high
  surrogate followed by a low one is a pair and is written as it is.
\<close>

definition hex_digit :: "nat \<Rightarrow> code_unit" where
  "hex_digit d = (if d < 10 then 48 + d else 87 + d)"

definition unicode_escape :: "code_unit \<Rightarrow> js_string" where
  "unicode_escape c =
     [0x5C, 0x75, hex_digit (c div 4096 mod 16), hex_digit (c div 256 mod 16),
      hex_digit (c div 16 mod 16), hex_digit (c mod 16)]"

definition escape_unit :: "code_unit \<Rightarrow> js_string" where
  "escape_unit c =
     (if c = 0x08 then [0x5C, 0x62]
      else if c = 0x09 then [0x5C, 0x74]
      else if c = 0x0A then [0x5C, 0x6E]
      else if c = 0x0C then [0x5C, 0x66]
      else if c = 0x0D then [0x5C, 0x72]
      else if c = 0x22 then [0x5C, 0x22]
      else if c = 0x5C then [0x5C, 0x5C]
      else if c < 0x20 then unicode_escape c
      else [c])"

definition is_high :: "code_unit \<Rightarrow> bool" where
  "is_high c = (0xD800 \<le> c \<and> c \<le> 0xDBFF)"

definition is_low :: "code_unit \<Rightarrow> bool" where
  "is_low c = (0xDC00 \<le> c \<and> c \<le> 0xDFFF)"

fun escape :: "js_string \<Rightarrow> js_string" where
  "escape [] = []"
| "escape [c] = (if is_high c \<or> is_low c then unicode_escape c else escape_unit c)"
| "escape (c # d # cs) =
     (if is_high c then
        (if is_low d then c # d # escape cs else unicode_escape c @ escape (d # cs))
      else if is_low c then unicode_escape c @ escape (d # cs)
      else escape_unit c @ escape (d # cs))"

definition quote :: "js_string \<Rightarrow> js_string" where
  "quote s = 0x22 # escape s @ [0x22]"

text \<open>
  \<^verbatim>\<open>JSON.stringify(value)\<close> with one argument: no indentation, hence no white space.
\<close>

fun JSON_stringify :: "('n \<Rightarrow> js_string) \<Rightarrow> 'n json \<Rightarrow> js_string"
  and stringify_elements :: "('n \<Rightarrow> js_string) \<Rightarrow> 'n json list \<Rightarrow> js_string"
  and stringify_members :: "('n \<Rightarrow> js_string) \<Rightarrow> (js_string \<times> 'n json) list \<Rightarrow> js_string"
  where
  "JSON_stringify nts JNull = asc ''null''"
| "JSON_stringify nts (JBool b) = (if b then asc ''true'' else asc ''false'')"
| "JSON_stringify nts (JNumber x) = nts x"
| "JSON_stringify nts (JString s) = quote s"
| "JSON_stringify nts (JArray xs) = 0x5B # stringify_elements nts xs @ [0x5D]"
| "JSON_stringify nts (JObject kvs) = 0x7B # stringify_members nts kvs @ [0x7D]"
| "stringify_elements nts [] = []"
| "stringify_elements nts [x] = JSON_stringify nts x"
| "stringify_elements nts (x # y # ys) =
     JSON_stringify nts x @ 0x2C # stringify_elements nts (y # ys)"
| "stringify_members nts [] = []"
| "stringify_members nts [kv] = quote (fst kv) @ 0x3A # JSON_stringify nts (snd kv)"
| "stringify_members nts (kv # kv' # kvs) =
     quote (fst kv) @ 0x3A # JSON_stringify nts (snd kv) @ 0x2C # stringify_members nts (kv' # kvs)"

subsection \<open>\<^verbatim>\<open>JSON.parse\<close>\<close>

definition is_ws :: "code_unit \<Rightarrow> bool" where
  "is_ws c = (c = 0x20 \<or> c = 0x09 \<or> c = 0x0A \<or> c = 0x0D)"

definition skip_ws :: "js_string \<Rightarrow> js_string" where
  "skip_ws s = dropWhile is_ws s"

definition is_digit :: "code_unit \<Rightarrow> bool" where
  "is_digit c = (48 \<le> c \<and> c \<le> 57)"

definition hex_value :: "code_unit \<Rightarrow> nat option" where
  "hex_value c =
     (if 48 \<le> c \<and> c \<le> 57 then Some (c - 48)
      else if 97 \<le> c \<and> c \<le> 102 then Some (c - 87)
      else if 65 \<le> c \<and> c \<le> 70 then Some (c - 55)
      else None)"

definition hex4 :: "js_string \<Rightarrow> code_unit option" where
  "hex4 hs =
     (case map hex_value hs of
        [Some a, Some b, Some c, Some d] \<Rightarrow> Some (((a * 16 + b) * 16 + c) * 16 + d)
      | _ \<Rightarrow> None)"

definition unescape :: "code_unit \<Rightarrow> code_unit option" where
  "unescape e =
     (if e = 0x22 then Some 0x22
      else if e = 0x5C then Some 0x5C
      else if e = 0x2F then Some 0x2F
      else if e = 0x62 then Some 0x08
      else if e = 0x66 then Some 0x0C
      else if e = 0x6E then Some 0x0A
      else if e = 0x72 then Some 0x0D
      else if e = 0x74 then Some 0x09
      else None)"

text \<open>
  The units of a string literal after its opening quote, up to the closing one: a unit from
  \<^verbatim>\<open>0x20\<close> stands for itself, a backslash starts one of the eight two-character escapes or
  \<^verbatim>\<open>\u\<close> with four hexadecimal digits of either case.
\<close>

fun parse_chars :: "js_string \<Rightarrow> (js_string \<times> js_string) option" where
  "parse_chars [] = None"
| "parse_chars (c # cs) =
     (if c = 0x22 then Some ([], cs)
      else if c = 0x5C then
        (case cs of
           [] \<Rightarrow> None
         | e # cs' \<Rightarrow>
             if e = 0x75 then
               (case hex4 (take 4 cs') of
                  None \<Rightarrow> None
                | Some u \<Rightarrow>
                    (case parse_chars (drop 4 cs') of
                       None \<Rightarrow> None
                     | Some (s, r) \<Rightarrow> Some (u # s, r)))
             else
               (case unescape e of
                  None \<Rightarrow> None
                | Some u \<Rightarrow>
                    (case parse_chars cs' of
                       None \<Rightarrow> None
                     | Some (s, r) \<Rightarrow> Some (u # s, r))))
      else if c < 0x20 then None
      else (case parse_chars cs of
              None \<Rightarrow> None
            | Some (s, r) \<Rightarrow> Some (c # s, r)))"

text \<open>
  A number token: an optional minus, then \<^verbatim>\<open>0\<close> or a digit from 1 to 9 with further digits,
  then an optional fraction (a point and at least one digit), then an optional exponent
  (\<^verbatim>\<open>e\<close> or \<^verbatim>\<open>E\<close>, an optional sign, at least one digit). Each scanner returns the units it took
  and the rest of the text.
\<close>

definition scan_minus :: "js_string \<Rightarrow> js_string \<times> js_string" where
  "scan_minus s =
     (case s of
        [] \<Rightarrow> ([], s)
      | c # cs \<Rightarrow> if c = 0x2D then ([c], cs) else ([], s))"

definition scan_int :: "js_string \<Rightarrow> (js_string \<times> js_string) option" where
  "scan_int s =
     (case s of
        [] \<Rightarrow> None
      | c # cs \<Rightarrow>
          if c = 0x30 then Some ([c], cs)
          else if is_digit c then Some (c # takeWhile is_digit cs, dropWhile is_digit cs)
          else None)"

definition scan_frac :: "js_string \<Rightarrow> (js_string \<times> js_string) option" where
  "scan_frac s =
     (case s of
        [] \<Rightarrow> Some ([], s)
      | c # cs \<Rightarrow>
          if c = 0x2E then
            (if takeWhile is_digit cs = [] then None
             else Some (c # takeWhile is_digit cs, dropWhile is_digit cs))
          else Some ([], s))"

definition scan_sign :: "js_string \<Rightarrow> js_string \<times> js_string" where
  "scan_sign s =
     (case s of
        [] \<Rightarrow> ([], s)
      | c # cs \<Rightarrow> if c = 0x2B \<or> c = 0x2D then ([c], cs) else ([], s))"

definition scan_exp :: "js_string \<Rightarrow> (js_string \<times> js_string) option" where
  "scan_exp s =
     (case s of
        [] \<Rightarrow> Some ([], s)
      | c # cs \<Rightarrow>
          if c = 0x65 \<or> c = 0x45 then
            (case scan_sign cs of
               (sg, r) \<Rightarrow>
                 if takeWhile is_digit r = [] then None
                 else Some (c # sg @ takeWhile is_digit r, dropWhile is_digit r))
          else Some ([], s))"

definition scan_number :: "js_string \<Rightarrow> (js_string \<times> js_string) option" where
  "scan_number s =
     (case scan_minus s of
        (m, s1) \<Rightarrow>
          (case scan_int s1 of
             None \<Rightarrow> None
           | Some (i, s2) \<Rightarrow>
               (case scan_frac s2 of
                  None \<Rightarrow> None
                | Some (f, s3) \<Rightarrow>
                    (case scan_exp s3 of
                       None \<Rightarrow> None
                     | Some (e, s4) \<Rightarrow> Some (m @ i @ f @ e, s4)))))"

definition parse_literal ::
  "js_string \<Rightarrow> 'n json \<Rightarrow> js_string \<Rightarrow> ('n json \<times> js_string) option" where
  "parse_literal word v s = (if prefix word s then Some (v, drop (length word) s) else None)"

text \<open>
  The members of an object are created in the order of the text, and the runtime enumerates
  the properties of the result with the array indices first, in ascending order, and the
  other keys after them in the order of creation. An array index is the decimal form,
  without a leading zero, of a number up to 4294967294. A repeated key keeps its place and
  takes the new value.
\<close>

definition digits_value :: "js_string \<Rightarrow> nat" where
  "digits_value ds = foldl (\<lambda>a c. 10 * a + (c - 48)) 0 ds"

definition is_index :: "js_string \<Rightarrow> bool" where
  "is_index k =
     (k \<noteq> [] \<and> list_all is_digit k \<and> (length k = 1 \<or> hd k \<noteq> 0x30)
      \<and> digits_value k \<le> 4294967294)"

fun replace_member ::
  "js_string \<Rightarrow> 'v \<Rightarrow> (js_string \<times> 'v) list \<Rightarrow> (js_string \<times> 'v) list" where
  "replace_member k v [] = []"
| "replace_member k v (p # ps) = (if fst p = k then (k, v) # ps else p # replace_member k v ps)"

fun insert_index ::
  "js_string \<Rightarrow> 'v \<Rightarrow> (js_string \<times> 'v) list \<Rightarrow> (js_string \<times> 'v) list" where
  "insert_index k v [] = [(k, v)]"
| "insert_index k v (p # ps) =
     (if is_index (fst p) \<and> digits_value (fst p) < digits_value k then p # insert_index k v ps
      else (k, v) # p # ps)"

definition assign ::
  "js_string \<Rightarrow> 'v \<Rightarrow> (js_string \<times> 'v) list \<Rightarrow> (js_string \<times> 'v) list" where
  "assign k v ps =
     (if k \<in> set (map fst ps) then replace_member k v ps
      else if is_index k then insert_index k v ps
      else ps @ [(k, v)])"

definition make_object :: "(js_string \<times> 'n json) list \<Rightarrow> 'n json" where
  "make_object ms = JObject (foldl (\<lambda>acc kv. assign (fst kv) (snd kv) acc) [] ms)"

text \<open>
  The parser is a recursive descent over the text. Its first argument after \<open>ton\<close> bounds
  the depth of the recursion, so that the three functions are total; \<open>JSON_parse\<close> passes a
  bound that no text exhausts (\<open>parse_value_fuel\<close> below). Each function returns its result
  and the rest of the text, or \<open>None\<close> for a syntax error.
\<close>

fun parse_value :: "(js_string \<Rightarrow> 'n) \<Rightarrow> nat \<Rightarrow> js_string \<Rightarrow> ('n json \<times> js_string) option"
  and parse_elements ::
    "(js_string \<Rightarrow> 'n) \<Rightarrow> nat \<Rightarrow> js_string \<Rightarrow> ('n json list \<times> js_string) option"
  and parse_members ::
    "(js_string \<Rightarrow> 'n) \<Rightarrow> nat \<Rightarrow> js_string
       \<Rightarrow> ((js_string \<times> 'n json) list \<times> js_string) option"
  where
  "parse_value ton 0 s = None"
| "parse_value ton (Suc n) s =
     (case skip_ws s of
        [] \<Rightarrow> None
      | c # cs \<Rightarrow>
          if c = 0x6E then parse_literal (asc ''null'') JNull (c # cs)
          else if c = 0x74 then parse_literal (asc ''true'') (JBool True) (c # cs)
          else if c = 0x66 then parse_literal (asc ''false'') (JBool False) (c # cs)
          else if c = 0x22 then
            (case parse_chars cs of
               None \<Rightarrow> None
             | Some (str, rest) \<Rightarrow> Some (JString str, rest))
          else if c = 0x5B then
            (case skip_ws cs of
               [] \<Rightarrow> None
             | d # ds \<Rightarrow>
                 if d = 0x5D then Some (JArray [], ds)
                 else (case parse_elements ton n cs of
                         None \<Rightarrow> None
                       | Some (xs, rest) \<Rightarrow> Some (JArray xs, rest)))
          else if c = 0x7B then
            (case skip_ws cs of
               [] \<Rightarrow> None
             | d # ds \<Rightarrow>
                 if d = 0x7D then Some (JObject [], ds)
                 else (case parse_members ton n cs of
                         None \<Rightarrow> None
                       | Some (ms, rest) \<Rightarrow> Some (make_object ms, rest)))
          else (case scan_number (c # cs) of
                  None \<Rightarrow> None
                | Some (tok, rest) \<Rightarrow> Some (JNumber (ton tok), rest)))"
| "parse_elements ton 0 s = None"
| "parse_elements ton (Suc n) s =
     (case parse_value ton n s of
        None \<Rightarrow> None
      | Some (x, rest) \<Rightarrow>
          (case skip_ws rest of
             [] \<Rightarrow> None
           | d # ds \<Rightarrow>
               if d = 0x2C then
                 (case parse_elements ton n ds of
                    None \<Rightarrow> None
                  | Some (xs, rest') \<Rightarrow> Some (x # xs, rest'))
               else if d = 0x5D then Some ([x], ds)
               else None))"
| "parse_members ton 0 s = None"
| "parse_members ton (Suc n) s =
     (case skip_ws s of
        [] \<Rightarrow> None
      | q # s1 \<Rightarrow>
          if q \<noteq> 0x22 then None
          else
            (case parse_chars s1 of
               None \<Rightarrow> None
             | Some (k, s2) \<Rightarrow>
                 (case skip_ws s2 of
                    [] \<Rightarrow> None
                  | colon # s3 \<Rightarrow>
                      if colon \<noteq> 0x3A then None
                      else
                        (case parse_value ton n s3 of
                           None \<Rightarrow> None
                         | Some (v, rest) \<Rightarrow>
                             (case skip_ws rest of
                                [] \<Rightarrow> None
                              | d # ds \<Rightarrow>
                                  if d = 0x2C then
                                    (case parse_members ton n ds of
                                       None \<Rightarrow> None
                                     | Some (ms, rest') \<Rightarrow> Some ((k, v) # ms, rest'))
                                  else if d = 0x7D then Some ([(k, v)], ds)
                                  else None)))))"

definition JSON_parse :: "(js_string \<Rightarrow> 'n) \<Rightarrow> js_string \<Rightarrow> error + 'n json" where
  "JSON_parse ton s =
     (case parse_value ton (Suc (length s)) s of
        None \<Rightarrow> Inl SyntaxError
      | Some (v, rest) \<Rightarrow> if skip_ws rest = [] then Inr v else Inl SyntaxError)"

subsection \<open>The values that \<^verbatim>\<open>JSON.stringify\<close> serialises\<close>

text \<open>
  A JSON value as the runtime holds it. An object has each key once, and its members stand
  in the order of enumeration: no array index after another key, and the array indices
  ascending (\<open>ordered_keys\<close>). A number is one that \<^verbatim>\<open>JSON.stringify\<close> writes as a number token
  which \<^verbatim>\<open>JSON.parse\<close> reads as the same number: in the runtime every finite double, while
  \<^verbatim>\<open>NaN\<close> and the infinities are written as \<^verbatim>\<open>null\<close>.
\<close>

fun ordered_keys :: "js_string list \<Rightarrow> bool" where
  "ordered_keys [] = True"
| "ordered_keys (k # ks) =
     (list_all (\<lambda>k'. if is_index k' then is_index k \<and> digits_value k < digits_value k' else True) ks
      \<and> ordered_keys ks)"

definition number_token :: "js_string \<Rightarrow> bool" where
  "number_token t = (scan_number t = Some (t, []))"

fun serializable :: "('n \<Rightarrow> js_string) \<Rightarrow> (js_string \<Rightarrow> 'n) \<Rightarrow> 'n json \<Rightarrow> bool" where
  "serializable nts ton (JNumber x) = (number_token (nts x) \<and> ton (nts x) = x)"
| "serializable nts ton (JArray xs) = list_all (serializable nts ton) xs"
| "serializable nts ton (JObject kvs) =
     (distinct (map fst kvs) \<and> ordered_keys (map fst kvs)
      \<and> list_all (\<lambda>kv. serializable nts ton (snd kv)) kvs)"
| "serializable nts ton v = True"

section \<open>The document model\<close>

definition toString :: "('c, 'sel) world \<Rightarrow> 'c list" where
  "toString w = value_text (store w (context_model w))"

text \<open>
  Modelled from the spec: the setter of \<^verbatim>\<open>value.text\<close> (the observable string of package
  \<^verbatim>\<open>observables\<close>) and the editor surface with its undo history are not in the sources.
  The spec has the setter replace the buffer and notify, and has the editor keep an editing
  history that \<^verbatim>\<open>clearHistory\<close> empties. \<open>write_text\<close> is the write with the emission of
  \<^verbatim>\<open>value.changed\<close>; the editor records in its history the text its own buffer held.
\<close>

definition write_text :: "addr \<Rightarrow> 'c list \<Rightarrow> ('c, 'sel) world \<Rightarrow> ('c, 'sel) world" where
  "write_text a s w =
     w\<lparr> store := (store w)(a := (store w a)\<lparr> value_text := s \<rparr>),
        history := (if a = editor_model w then value_text (store w a) # history w
                    else history w),
        log := log w @ [ValueChanged a s] \<rparr>"

definition DIRTY_CLASS :: string where
  "DIRTY_CLASS = ''jp-mod-dirty''"

text \<open>
  JavaScript's \<^verbatim>\<open>String.prototype.replace\<close> with a string pattern: the first occurrence only.
\<close>

fun replace_first :: "string \<Rightarrow> string \<Rightarrow> string \<Rightarrow> string" where
  "replace_first pat rep [] = (if pat = [] then rep else [])"
| "replace_first pat rep (c # cs) =
     (if prefix pat (c # cs) then rep @ drop (length pat) (c # cs)
      else c # replace_first pat rep cs)"

text \<open>
  \<^verbatim>\<open>_handleDirtyState\<close> and \<^verbatim>\<open>_onModelStateChanged\<close> of \<^verbatim>\<open>FileEditorCodeWrapper\<close>. The title
  written is that widget's own.
\<close>

definition handleDirtyState :: "('c, 'sel) world \<Rightarrow> ('c, 'sel) world" where
  "handleDirtyState w =
     (if dirty w then w\<lparr> title_className := title_className w @ '' '' @ DIRTY_CLASS \<rparr>
      else w\<lparr> title_className := replace_first DIRTY_CLASS [] (title_className w) \<rparr>)"

definition onModelStateChanged :: "changed_args \<Rightarrow> ('c, 'sel) world \<Rightarrow> ('c, 'sel) world" where
  "onModelStateChanged args w = (if name args = ''dirty'' then handleDirtyState w else w)"

text \<open>
  \<^verbatim>\<open>Signal.emit\<close> calls the connected slots synchronously. The only slot of \<^verbatim>\<open>stateChanged\<close>
  in this world is the widget's \<^verbatim>\<open>_onModelStateChanged\<close>.
\<close>

definition triggerStateChange :: "changed_args \<Rightarrow> ('c, 'sel) world \<Rightarrow> ('c, 'sel) world" where
  "triggerStateChange args w =
     (let w1 = w\<lparr> log := log w @ [StateChanged args] \<rparr>
      in if stateChanged_connected w1 then onModelStateChanged args w1 else w1)"

definition set_dirty :: "bool \<Rightarrow> ('c, 'sel) world \<Rightarrow> ('c, 'sel) world" where
  "set_dirty new_value w =
     (if new_value = dirty w then w
      else let old_value = dirty w
           in triggerStateChange
                \<lparr> name = ''dirty'', oldValue = old_value, newValue = new_value \<rparr>
                (w\<lparr> dirty := new_value \<rparr>))"

definition set_readOnly :: "bool \<Rightarrow> ('c, 'sel) world \<Rightarrow> ('c, 'sel) world" where
  "set_readOnly new_value w =
     (if new_value = readOnly w then w
      else let old_value = readOnly w
           in triggerStateChange
                \<lparr> name = ''readOnly'', oldValue = old_value, newValue = new_value \<rparr>
                (w\<lparr> readOnly := new_value \<rparr>))"

text \<open>
  \<^verbatim>\<open>_onContentChanged\<close> of the widget. The assignment to \<^verbatim>\<open>editorModel.value.text\<close> is reached
  only when the two texts differ, hence only when the editor's model is an object other
  than the context's model and the new value is not the current one: what is left of the
  setter there is \<open>write_text\<close> (lemma \<open>onContentChanged_setter\<close>).
\<close>

definition onContentChanged :: "('c, 'sel) world \<Rightarrow> ('c, 'sel) world" where
  "onContentChanged w =
     (let old_value = value_text (store w (editor_model w));
          new_value = toString w
      in if old_value \<noteq> new_value then write_text (editor_model w) new_value w else w)"

definition emit_contentChanged :: "('c, 'sel) world \<Rightarrow> ('c, 'sel) world" where
  "emit_contentChanged w =
     (let w1 = w\<lparr> log := log w @ [ContentChanged (dirty w)] \<rparr>
      in if contentChanged_connected w1 then onContentChanged w1 else w1)"

definition triggerContentChange :: "('c, 'sel) world \<Rightarrow> ('c, 'sel) world" where
  "triggerContentChange w = set_dirty True (emit_contentChanged w)"

text \<open>
  Modelled from the spec: the assignment \<^verbatim>\<open>m.value.text = s\<close> on the model object at
  address \<open>a\<close>, whose setter is not in the sources. Whether the setter returns early on an
  unchanged value is the parameter \<open>skip_unchanged\<close> of the world. With \<open>skip_unchanged\<close>
  false it is the setter as the spec words it: it replaces the buffer and notifies on every
  call. With \<open>skip_unchanged\<close> true it returns at once when \<open>s\<close> is the current text, which is
  what the setter of the observable string in package \<^verbatim>\<open>observables\<close> does. The statements
  about the widget hold for both; the ones about \<^verbatim>\<open>fromString\<close> say what each gives.
  The constructor of \<^verbatim>\<open>DocumentModel\<close> connects \<^verbatim>\<open>triggerContentChange\<close> to \<^verbatim>\<open>value.changed\<close> of
  the document model; a model object that is not the context's has no such slot.
\<close>

definition set_value_text :: "addr \<Rightarrow> 'c list \<Rightarrow> ('c, 'sel) world \<Rightarrow> ('c, 'sel) world" where
  "set_value_text a s w =
     (if skip_unchanged w \<and> value_text (store w a) = s then w
      else let w1 = write_text a s w
           in if a = context_model w1 then triggerContentChange w1 else w1)"

text \<open>\<^verbatim>\<open>fromString(value)\<close> is the assignment \<^verbatim>\<open>this.value.text = value\<close> and nothing else.\<close>

definition fromString :: "'c list \<Rightarrow> ('c, 'sel) world \<Rightarrow> ('c, 'sel) world" where
  "fromString s w = set_value_text (context_model w) s w"

text \<open>
  \<^verbatim>\<open>JSON.parse(this.value.text || 'null')\<close>: the empty string is falsy. A \<^verbatim>\<open>SyntaxError\<close> of
  \<^verbatim>\<open>JSON.parse\<close> is not caught. \<^verbatim>\<open>JSON.stringify\<close> raises none on a JSON value, so \<open>fromJSON\<close>
  always returns a world.
\<close>

definition toJSON :: "(js_string \<Rightarrow> 'n) \<Rightarrow> (code_unit, 'sel) world \<Rightarrow> error + 'n json" where
  "toJSON ton w =
     JSON_parse ton (if value_text (store w (context_model w)) = [] then asc ''null''
                     else value_text (store w (context_model w)))"

definition fromJSON ::
  "('n \<Rightarrow> js_string) \<Rightarrow> 'n json \<Rightarrow> (code_unit, 'sel) world
     \<Rightarrow> error + (code_unit, 'sel) world" where
  "fromJSON nts v w = Inr (fromString (JSON_stringify nts v) w)"

section \<open>The editor widget\<close>

text \<open>
  \<^verbatim>\<open>_onContextReady\<close>, the continuation of \<^verbatim>\<open>context.ready\<close>: the disposed check, the assignment
  to the editor model's text, \<^verbatim>\<open>editor.clearHistory()\<close>, \<^verbatim>\<open>_handleDirtyState()\<close>, the two
  connections, and the resolution of \<^verbatim>\<open>_ready\<close>.
\<close>

definition onContextReady :: "('c, 'sel) world \<Rightarrow> ('c, 'sel) world" where
  "onContextReady w =
     (if isDisposed w then w
      else let w1 = set_value_text (editor_model w) (toString w) w;
               w2 = w1\<lparr> history := [] \<rparr>;
               w3 = handleDirtyState w2;
               w4 = w3\<lparr> stateChanged_connected := True \<rparr>;
               w5 = w4\<lparr> contentChanged_connected := True \<rparr>
           in w5\<lparr> ready_resolved := True \<rparr>)"

text \<open>
  Modelled from the spec: \<^verbatim>\<open>collaborators.has(key)\<close> and \<^verbatim>\<open>selections.delete(key)\<close> are methods
  of the observable maps of package \<^verbatim>\<open>observables\<close>, which are not in the sources. The spec has
  the roster tell whether it holds an identifier, and has the selections be a mapping from
  collaborator identifiers to selections, from which an entry is removed by its key.
\<close>

definition has :: "collaborator_map \<Rightarrow> string \<Rightarrow> bool" where
  "has c key = (key \<in> set (map fst (members c)))"

definition selections_delete :: "string \<Rightarrow> ('c, 'sel) world \<Rightarrow> ('c, 'sel) world" where
  "selections_delete key w =
     w\<lparr> store := (store w)(editor_model w :=
          (store w (editor_model w))
            \<lparr> selections :=
                filter (\<lambda>kv. fst kv \<noteq> key) (selections (store w (editor_model w))) \<rparr>) \<rparr>"

text \<open>The loop of \<^verbatim>\<open>_onCollaboratorsChanged\<close> over the snapshot \<^verbatim>\<open>selections.keys()\<close>.\<close>

fun prune_keys :: "collaborator_map \<Rightarrow> string list \<Rightarrow> ('c, 'sel) world \<Rightarrow> ('c, 'sel) world" where
  "prune_keys c [] w = w"
| "prune_keys c (key # keys) w =
     prune_keys c keys (if \<not> has c key then selections_delete key w else w)"

definition onCollaboratorsChanged :: "('c, 'sel) world \<Rightarrow> ('c, 'sel) world" where
  "onCollaboratorsChanged w =
     (case collaborators w of
        None \<Rightarrow> w
      | Some c \<Rightarrow> prune_keys c (map fst (selections (store w (editor_model w)))) w)"

text \<open>
  The continuation of \<^verbatim>\<open>modelDB.connected\<close>, which the constructor registers when
  \<^verbatim>\<open>modelDB.isCollaborative\<close> holds. \<open>dflt\<close> is \<^verbatim>\<open>CodeEditor.defaultSelectionStyle\<close>.
\<close>

definition onConnected :: "selection_style \<Rightarrow> ('c, 'sel) world \<Rightarrow> ('c, 'sel) world" where
  "onConnected dflt w =
     (if \<not> isCollaborative w then w
      else case collaborators w of
             None \<Rightarrow> w
           | Some c \<Rightarrow>
               onCollaboratorsChanged
                 (w\<lparr> uuid := sessionId (localCollaborator c),
                     selectionStyle := dflt\<lparr> style_color := color (localCollaborator c) \<rparr>,
                     collaborators_changed_connected := True \<rparr>))"

text \<open>Delivery of the roster's \<^verbatim>\<open>changed\<close> signal to the widget.\<close>

definition emit_collaborators_changed :: "('c, 'sel) world \<Rightarrow> ('c, 'sel) world" where
  "emit_collaborators_changed w =
     (if collaborators_changed_connected w then onCollaboratorsChanged w else w)"

text \<open>
  Modelled from the spec: \<^verbatim>\<open>dispose\<close> is inherited from the widget toolkit. The spec has it
  set the disposed flag and release every subscription of the widget. Disposing the
  document widget disposes the editor widget inside it.
\<close>

definition dispose :: "('c, 'sel) world \<Rightarrow> ('c, 'sel) world" where
  "dispose w =
     w\<lparr> isDisposed := True, stateChanged_connected := False,
        contentChanged_connected := False, collaborators_changed_connected := False,
        pathChanged_connected := False \<rparr>"

text \<open>
  A new \<^verbatim>\<open>DocumentModel\<close> at address \<open>cm\<close> (fields as initialised in the class body) in a
  context at path \<open>p\<close>, with new widgets whose editor has its model at \<open>em\<close> and whose mime
  type service is \<open>mts\<close>; then the one statement of the constructor of
  \<^verbatim>\<open>FileEditorCodeWrapper\<close> that touches the models.
\<close>

definition fresh_world ::
  "bool \<Rightarrow> addr \<Rightarrow> addr \<Rightarrow> string \<Rightarrow> bool \<Rightarrow> collaborator_map option \<Rightarrow> selection_style
     \<Rightarrow> string \<Rightarrow> (string \<Rightarrow> string) \<Rightarrow> ('c, 'sel) world" where
  "fresh_world skip cm em languagePreference collab cs dflt p mts =
     \<lparr> store = (\<lambda>_. \<lparr> value_text = [], mimeType = ''text/plain'', selections = [] \<rparr>),
       skip_unchanged = skip,
       context_model = cm, dirty = False, readOnly = False,
       defaultLang = languagePreference,
       isCollaborative = collab, collaborators = cs, path = p,
       stateChanged_connected = False, contentChanged_connected = False,
       collaborators_changed_connected = False, pathChanged_connected = False,
       editor_model = em, history = [], uuid = [], selectionStyle = dflt,
       title_className = [], isDisposed = False, ready_resolved = False,
       getMimeTypeByFilePath = mts,
       FileEditor_title_label = [], FileEditor_title_className = [], log = [] \<rparr>"

definition constructor :: "('c, 'sel) world \<Rightarrow> ('c, 'sel) world" where
  "constructor w = set_value_text (editor_model w) (toString w) w"

section \<open>The document widget\<close>

text \<open>
  \<^verbatim>\<open>path.split(':').pop()\<close> is the part of the path after its last colon, the whole path when
  it has none.
\<close>

definition after_last :: "char \<Rightarrow> string \<Rightarrow> string" where
  "after_last c s = rev (takeWhile (\<lambda>x. x \<noteq> c) (rev s))"

text \<open>
  Modelled from the spec: \<^verbatim>\<open>PathExt.basename\<close> of package \<^verbatim>\<open>coreutils\<close> is not in the sources.
  The spec has the title be the final segment of the path.
\<close>

definition basename :: "string \<Rightarrow> string" where
  "basename p = after_last CHR ''/'' p"

text \<open>
  \<^verbatim>\<open>_onPathChanged\<close> of \<^verbatim>\<open>FileEditor\<close>: it sets the mime type of the editor's model and the label
  of the title. Nothing in \<^verbatim>\<open>FileEditor\<close> writes the class of its title.
\<close>

definition onPathChanged :: "('c, 'sel) world \<Rightarrow> ('c, 'sel) world" where
  "onPathChanged w =
     (let p = path w;
          w1 = w\<lparr> store := (store w)(editor_model w :=
                 (store w (editor_model w))\<lparr> mimeType := getMimeTypeByFilePath w p \<rparr>) \<rparr>
      in w1\<lparr> FileEditor_title_label := basename (after_last CHR '':'' p) \<rparr>)"

text \<open>Delivery of the context's \<^verbatim>\<open>pathChanged\<close> signal, after the context took the path \<open>p\<close>.\<close>

definition emit_pathChanged :: "string \<Rightarrow> ('c, 'sel) world \<Rightarrow> ('c, 'sel) world" where
  "emit_pathChanged p w =
     (let w1 = w\<lparr> path := p \<rparr>
      in if pathChanged_connected w1 then onPathChanged w1 else w1)"

text \<open>
  The constructor of \<^verbatim>\<open>FileEditor\<close>: it constructs the editor widget, connects
  \<^verbatim>\<open>_onPathChanged\<close> to \<^verbatim>\<open>context.pathChanged\<close> and calls it once. The layout that follows holds
  no state of this world.
\<close>

definition FileEditor_constructor :: "('c, 'sel) world \<Rightarrow> ('c, 'sel) world" where
  "FileEditor_constructor w =
     (let w1 = constructor w;
          w2 = w1\<lparr> pathChanged_connected := True \<rparr>
      in onPathChanged w2)"

section \<open>Observations and runs\<close>

text \<open>The number of writes to the buffer at \<open>a\<close> that a log records.\<close>

fun buffer_writes :: "addr \<Rightarrow> 'c event list \<Rightarrow> nat" where
  "buffer_writes a [] = 0"
| "buffer_writes a (ValueChanged b s # es) = (if b = a then 1 else 0) + buffer_writes a es"
| "buffer_writes a (e # es) = buffer_writes a es"




text \<open>
  What can happen to the bound widgets: the operations of the document model, input through
  the editor, a change of the roster and a change of the path. \<^verbatim>\<open>fromJSON(v)\<close> is
  \<^verbatim>\<open>fromString\<close> of a text, so \<open>FromString\<close> stands for it too.
\<close>

datatype 'c action =
    SetDirty bool
  | SetReadOnly bool
  | FromString "'c list"
  | EditorInput "'c list"
  | CollaboratorsChanged
  | PathChanged string

fun apply_action :: "'c action \<Rightarrow> ('c, 'sel) world \<Rightarrow> ('c, 'sel) world" where
  "apply_action (SetDirty b) w = set_dirty b w"
| "apply_action (SetReadOnly b) w = set_readOnly b w"
| "apply_action (FromString s) w = fromString s w"
| "apply_action (EditorInput s) w = set_value_text (editor_model w) s w"
| "apply_action CollaboratorsChanged w = emit_collaborators_changed w"
| "apply_action (PathChanged p) w = emit_pathChanged p w"

fun run :: "'c action list \<Rightarrow> ('c, 'sel) world \<Rightarrow> ('c, 'sel) world" where
  "run [] w = w"
| "run (a # as) w = run as (apply_action a w)"

text \<open>
  The title class of the editor widget in step with the dirty flag: either the flag is set
  and the class ends in one marker after a blank, or the marker does not occur in it.
\<close>

definition marker_ok :: "bool \<Rightarrow> string \<Rightarrow> bool" where
  "marker_ok d cls =
     (if d then \<exists>c0. \<not> sublist DIRTY_CLASS c0 \<and> cls = c0 @ '' '' @ DIRTY_CLASS
      else \<not> sublist DIRTY_CLASS cls)"

definition bound_inv :: "('c, 'sel) world \<Rightarrow> bool" where
  "bound_inv w = (stateChanged_connected w \<and> marker_ok (dirty w) (title_className w))"

text \<open>What may follow a value in a text that \<open>JSON_stringify\<close> writes, and what starts one.\<close>

definition follow_ok :: "js_string \<Rightarrow> bool" where
  "follow_ok rest =
     (case rest of [] \<Rightarrow> True | c # cs \<Rightarrow> c = 0x2C \<or> c = 0x5D \<or> c = 0x7D)"

definition value_start :: "code_unit \<Rightarrow> bool" where
  "value_start c =
     (c = 0x6E \<or> c = 0x74 \<or> c = 0x66 \<or> c = 0x22 \<or> c = 0x5B \<or> c = 0x7B
      \<or> c = 0x2D \<or> is_digit c)"

text \<open>
  A parser with a depth bound is adequate at \<open>n\<close> when each of its results at \<open>n\<close> consumes
  input and is the result at every bound from the number of units consumed.
\<close>

definition adequate :: "(nat \<Rightarrow> js_string \<Rightarrow> ('a \<times> js_string) option) \<Rightarrow> nat \<Rightarrow> bool" where
  "adequate p n =
     (\<forall>s x rest. p n s = Some (x, rest) \<longrightarrow>
        length rest < length s \<and>
        (\<forall>k. length s - length rest \<le> k \<longrightarrow> p k s = Some (x, rest)))"

section \<open>Example worlds\<close>

text \<open>
  A default selection style, a roster whose only collaborator is \<open>A\<close>, a mime type service,
  and the world after the constructors for the context at path \<^verbatim>\<open>a.txt\<close>: the document model
  at address 0, the editor's model at \<open>em\<close>. \<open>example_document\<close> is the same world with the
  buffer texts as code units.
\<close>

definition default_style :: selection_style where
  "default_style = \<lparr> className = [], displayName = [], style_color = ''black'' \<rparr>"

definition roster_A :: collaborator_map where
  "roster_A =
     \<lparr> localCollaborator = \<lparr> sessionId = ''A'', color = ''red'' \<rparr>,
       members = [(''A'', \<lparr> sessionId = ''A'', color = ''red'' \<rparr>)] \<rparr>"

definition plain_text_service :: "string \<Rightarrow> string" where
  "plain_text_service p = ''text/plain''"

definition example_world :: "bool \<Rightarrow> addr \<Rightarrow> (char, nat) world" where
  "example_world skip em =
     FileEditor_constructor
       (fresh_world skip 0 em [] True (Some roster_A) default_style ''a.txt'' plain_text_service)"

definition example_document :: "bool \<Rightarrow> addr \<Rightarrow> (code_unit, nat) world" where
  "example_document skip em =
     FileEditor_constructor
       (fresh_world skip 0 em [] True (Some roster_A) default_style ''a.txt'' plain_text_service)"

text \<open>The editor's model holding selections of the collaborators \<open>A\<close> and \<open>B\<close>.\<close>

definition two_selections :: "(char, nat) world \<Rightarrow> (char, nat) world" where
  "two_selections w =
     w\<lparr> store := (store w)(editor_model w :=
          (store w (editor_model w))\<lparr> selections := [(''A'', 1), (''B'', 2)] \<rparr>) \<rparr>"

text \<open>
  An instance of the two parameters of the JSON functions: a number is kept as the token
  that stands for it, so writing and reading a number are the identity.
\<close>

definition literal :: "js_string \<Rightarrow> js_string" where
  "literal t = t"

definition example_json :: "js_string json" where
  "example_json =
     JObject [(asc ''7'', JNull),
              (asc ''cells'',
                 JArray [JNumber (asc ''-12''), JNumber (asc ''1.5e+21''), JBool True,
                         JString (0xD83D # 0xDE00 # 0xD800 # asc ''a b'')]),
              (asc ''nbformat'', JNumber (asc ''4''))]"

section \<open>Parsing what \<^verbatim>\<open>JSON.stringify\<close> writes\<close>

text \<open>
  The parser reads back what the serialiser writes for a serialisable value. The proof goes
  along the serialiser: a number token followed by a separator is scanned as that token, a
  quoted string is read as the string, and a value is read as the value, by the induction
  rule of \<open>JSON_stringify\<close>.
\<close>

subsection \<open>Number tokens\<close>

lemma follow_ok_simps [simp]:
  "follow_ok []" "follow_ok (0x2C # s)" "follow_ok (0x5D # s)" "follow_ok (0x7D # s)"
  by (simp_all add: follow_ok_def)

lemma follow_ok_digits:
  "follow_ok rest \<Longrightarrow> takeWhile is_digit rest = [] \<and> dropWhile is_digit rest = rest"
  by (cases rest) (auto simp add: follow_ok_def is_digit_def)

lemma takeWhile_digit_follow:
  "follow_ok rest \<Longrightarrow> takeWhile is_digit (xs @ rest) = takeWhile is_digit xs"
  by (induction xs) (simp_all add: follow_ok_digits)

lemma dropWhile_digit_follow:
  "follow_ok rest \<Longrightarrow> dropWhile is_digit (xs @ rest) = dropWhile is_digit xs @ rest"
  by (induction xs) (simp_all add: follow_ok_digits)

lemma scan_minus_append:
  "s \<noteq> [] \<Longrightarrow> scan_minus (s @ rest) = (fst (scan_minus s), snd (scan_minus s) @ rest)"
  by (cases s) (simp_all add: scan_minus_def)

lemma scan_int_append:
  "scan_int s = Some (i, r) \<Longrightarrow> follow_ok rest \<Longrightarrow> scan_int (s @ rest) = Some (i, r @ rest)"
  by (cases s)
    (auto simp add: scan_int_def takeWhile_digit_follow dropWhile_digit_follow split: if_splits)

lemma follow_ok_head:
  "follow_ok (c # cs) \<Longrightarrow> c \<noteq> 0x2E \<and> c \<noteq> 0x65 \<and> c \<noteq> 0x45 \<and> c \<noteq> 0x2B \<and> c \<noteq> 0x2D"
  by (auto simp add: follow_ok_def)

lemma scan_frac_append:
  "scan_frac s = Some (f, r) \<Longrightarrow> follow_ok rest \<Longrightarrow> scan_frac (s @ rest) = Some (f, r @ rest)"
proof (cases s)
  case Nil
  assume "scan_frac s = Some (f, r)" and "follow_ok rest"
  with Nil show ?thesis
    by (cases rest) (auto simp add: scan_frac_def dest: follow_ok_head)
next
  case (Cons c cs)
  assume "scan_frac s = Some (f, r)" and "follow_ok rest"
  with Cons show ?thesis
    by (auto simp add: scan_frac_def takeWhile_digit_follow dropWhile_digit_follow
        split: if_splits)
qed

lemma scan_sign_append:
  "follow_ok rest \<Longrightarrow> scan_sign (s @ rest) = (fst (scan_sign s), snd (scan_sign s) @ rest)"
proof (cases s)
  case Nil
  assume "follow_ok rest"
  with Nil show ?thesis
    by (cases rest) (auto simp add: scan_sign_def dest: follow_ok_head)
next
  case (Cons c cs)
  then show ?thesis by (simp add: scan_sign_def)
qed

lemma scan_exp_append:
  "scan_exp s = Some (e, r) \<Longrightarrow> follow_ok rest \<Longrightarrow> scan_exp (s @ rest) = Some (e, r @ rest)"
proof (cases s)
  case Nil
  assume "scan_exp s = Some (e, r)" and "follow_ok rest"
  with Nil show ?thesis
    by (cases rest) (auto simp add: scan_exp_def dest: follow_ok_head)
next
  case (Cons c cs)
  assume a: "scan_exp s = Some (e, r)" and f: "follow_ok rest"
  show ?thesis
  proof (cases "c = 0x65 \<or> c = 0x45")
    case True
    obtain sg r1 where sg: "scan_sign cs = (sg, r1)" by (cases "scan_sign cs")
    with scan_sign_append[OF f, of cs] have sg': "scan_sign (cs @ rest) = (sg, r1 @ rest)"
      by simp
    from a Cons True sg have ne: "takeWhile is_digit r1 \<noteq> []"
      and e: "e = c # sg @ takeWhile is_digit r1" and r: "r = dropWhile is_digit r1"
      by (auto simp add: scan_exp_def split: if_splits)
    show ?thesis
      using Cons True sg' ne e r
      by (auto simp add: scan_exp_def takeWhile_digit_follow[OF f] dropWhile_digit_follow[OF f])
  next
    case False
    with a Cons show ?thesis by (auto simp add: scan_exp_def)
  qed
qed

lemma scan_number_append:
  assumes "scan_number s = Some (tok, r)" and f: "follow_ok rest"
  shows "scan_number (s @ rest) = Some (tok, r @ rest)"
proof -
  obtain m s1 where m: "scan_minus s = (m, s1)" by (cases "scan_minus s")
  from assms(1) m obtain i s2 where i: "scan_int s1 = Some (i, s2)"
    by (auto simp add: scan_number_def split: option.splits)
  from assms(1) m i obtain fr s3 where fr: "scan_frac s2 = Some (fr, s3)"
    by (auto simp add: scan_number_def split: option.splits)
  from assms(1) m i fr obtain e s4 where e: "scan_exp s3 = Some (e, s4)"
    by (auto simp add: scan_number_def split: option.splits)
  from assms(1) m i fr e have res: "tok = m @ i @ fr @ e" "r = s4"
    by (auto simp add: scan_number_def)
  have "s \<noteq> []" using m i by (cases s) (auto simp add: scan_minus_def scan_int_def)
  then have m': "scan_minus (s @ rest) = (m, s1 @ rest)"
    using m by (simp add: scan_minus_append)
  show ?thesis
    using m' scan_int_append[OF i f] scan_frac_append[OF fr f] scan_exp_append[OF e f] res
    by (simp add: scan_number_def)
qed

lemma number_token_append:
  "number_token t \<Longrightarrow> follow_ok rest \<Longrightarrow> scan_number (t @ rest) = Some (t, rest)"
  using scan_number_append[of t t "[]" rest] by (simp add: number_token_def)

lemma number_token_start:
  "number_token t \<Longrightarrow> \<exists>c cs. t = c # cs \<and> (c = 0x2D \<or> is_digit c)"
  by (cases t)
    (auto simp add: number_token_def scan_number_def scan_minus_def scan_int_def is_digit_def
      split: if_splits option.splits)

lemma scan_minus_shorter: "scan_minus s = (m, r) \<Longrightarrow> length r \<le> length s"
  by (cases s) (auto simp add: scan_minus_def split: if_splits)

lemma scan_int_shorter: "scan_int s = Some (i, r) \<Longrightarrow> length r < length s"
  by (cases s) (auto simp add: scan_int_def less_Suc_eq_le length_dropWhile_le split: if_splits)

lemma scan_frac_shorter: "scan_frac s = Some (f, r) \<Longrightarrow> length r \<le> length s"
  by (cases s)
    (auto simp add: scan_frac_def le_SucI length_dropWhile_le split: if_splits)

lemma scan_sign_shorter: "scan_sign s = (sg, r) \<Longrightarrow> length r \<le> length s"
  by (cases s) (auto simp add: scan_sign_def split: if_splits)

lemma scan_exp_shorter: "scan_exp s = Some (e, r) \<Longrightarrow> length r \<le> length s"
proof (cases s)
  case Nil
  assume "scan_exp s = Some (e, r)"
  with Nil show ?thesis by (simp add: scan_exp_def)
next
  case (Cons c cs)
  assume a: "scan_exp s = Some (e, r)"
  obtain sg r1 where sg: "scan_sign cs = (sg, r1)" by (cases "scan_sign cs")
  then have "length r1 \<le> length cs" by (rule scan_sign_shorter)
  moreover have "length (dropWhile is_digit r1) \<le> length r1" by (rule length_dropWhile_le)
  ultimately show ?thesis
    using a Cons sg by (auto simp add: scan_exp_def split: if_splits)
qed

lemma scan_number_shorter: "scan_number s = Some (tok, r) \<Longrightarrow> length r < length s"
proof -
  assume a: "scan_number s = Some (tok, r)"
  obtain m s1 where m: "scan_minus s = (m, s1)" by (cases "scan_minus s")
  from a m obtain i s2 where i: "scan_int s1 = Some (i, s2)"
    by (auto simp add: scan_number_def split: option.splits)
  from a m i obtain fr s3 where fr: "scan_frac s2 = Some (fr, s3)"
    by (auto simp add: scan_number_def split: option.splits)
  from a m i fr have e: "scan_exp s3 = Some (drop (length (m @ i @ fr)) tok, r)"
    by (auto simp add: scan_number_def split: option.splits)
  from scan_minus_shorter[OF m] scan_int_shorter[OF i] scan_frac_shorter[OF fr]
    scan_exp_shorter[OF e]
  show ?thesis by simp
qed

subsection \<open>Strings\<close>

lemma hex_value_hex_digit: "d < 16 \<Longrightarrow> hex_value (hex_digit d) = Some d"
  by (auto simp add: hex_value_def hex_digit_def)

lemma nibbles:
  fixes c :: nat
  assumes "c < 65536"
  shows "((c div 4096 mod 16 * 16 + c div 256 mod 16) * 16 + c div 16 mod 16) * 16 + c mod 16 = c"
proof -
  define x where "x = c div 16"
  define y where "y = x div 16"
  define z where "z = y div 16"
  have cz: "c div 4096 = z" by (simp add: x_def y_def z_def div_mult2_eq)
  have cy: "c div 256 = y" by (simp add: x_def y_def div_mult2_eq)
  have "z < 16" using assms unfolding cz[symmetric] by simp
  then have a: "z mod 16 = z" by simp
  have b: "z * 16 + y mod 16 = y" by (simp add: z_def)
  have c': "y * 16 + x mod 16 = x" by (simp add: y_def)
  have d: "x * 16 + c mod 16 = c" by (simp add: x_def)
  show ?thesis
    unfolding cz cy x_def[symmetric] a b c' d ..
qed

lemma hex4_unicode_escape:
  assumes "c < 65536"
  shows "hex4 [hex_digit (c div 4096 mod 16), hex_digit (c div 256 mod 16),
               hex_digit (c div 16 mod 16), hex_digit (c mod 16)] = Some c"
proof -
  have m: "c div 4096 mod 16 < 16" "c div 256 mod 16 < 16" "c div 16 mod 16 < 16" "c mod 16 < 16"
    by simp_all
  show ?thesis
    by (simp only: hex4_def list.map hex_value_hex_digit[OF m(1)] hex_value_hex_digit[OF m(2)]
          hex_value_hex_digit[OF m(3)] hex_value_hex_digit[OF m(4)] list.case option.case
          nibbles[OF assms])
qed

lemma parse_chars_unicode_escape:
  assumes "c < 65536"
  shows "parse_chars (unicode_escape c @ tail) =
     (case parse_chars tail of None \<Rightarrow> None | Some (s, r) \<Rightarrow> Some (c # s, r))"
proof -
  have h: "hex4 [hex_digit (c div 4096 mod 16), hex_digit (c div 256 mod 16),
               hex_digit (c div 16 mod 16), hex_digit (c mod 16)] = Some c"
    using assms by (rule hex4_unicode_escape)
  show ?thesis
    by (simp add: unicode_escape_def h)
qed

lemma parse_chars_escape_unit:
  "parse_chars (escape_unit c @ tail) =
     (case parse_chars tail of None \<Rightarrow> None | Some (s, r) \<Rightarrow> Some (c # s, r))"
proof -
  consider (named) "c = 0x08 \<or> c = 0x09 \<or> c = 0x0A \<or> c = 0x0C \<or> c = 0x0D
        \<or> c = 0x22 \<or> c = 0x5C"
    | (control) "c \<noteq> 0x08" "c \<noteq> 0x09" "c \<noteq> 0x0A" "c \<noteq> 0x0C" "c \<noteq> 0x0D"
        "c \<noteq> 0x22" "c \<noteq> 0x5C" "c < 0x20"
    | (plain) "c \<noteq> 0x08" "c \<noteq> 0x09" "c \<noteq> 0x0A" "c \<noteq> 0x0C" "c \<noteq> 0x0D"
        "c \<noteq> 0x22" "c \<noteq> 0x5C" "\<not> c < 0x20"
    by blast
  then show ?thesis
  proof cases
    case named
    then show ?thesis
      by (auto simp add: escape_unit_def unescape_def)
  next
    case control
    then show ?thesis
      by (simp add: escape_unit_def parse_chars_unicode_escape)
  next
    case plain
    then show ?thesis
      by (simp add: escape_unit_def)
  qed
qed

lemma surrogate_bounds:
  "is_high c \<or> is_low c \<Longrightarrow> c < 65536 \<and> c \<noteq> 0x22 \<and> c \<noteq> 0x5C \<and> \<not> c < 0x20"
  by (auto simp add: is_high_def is_low_def)

lemma parse_chars_surrogate:
  "is_high c \<or> is_low c \<Longrightarrow>
   parse_chars (c # tail) =
     (case parse_chars tail of None \<Rightarrow> None | Some (s, r) \<Rightarrow> Some (c # s, r))"
  using surrogate_bounds[of c] by simp

lemma parse_chars_escape:
  "parse_chars (escape s @ 0x22 # rest) = Some (s, rest)"
proof (induction s rule: escape.induct)
  case 1
  show ?case by simp
next
  case (2 c)
  show ?case
    using surrogate_bounds[of c]
    by (simp add: parse_chars_unicode_escape parse_chars_escape_unit del: parse_chars.simps)
      simp
next
  case (3 c d cs)
  show ?case
  proof (cases "is_high c")
    case True
    show ?thesis
    proof (cases "is_low d")
      case low: True
      with True 3 have "parse_chars (escape cs @ 0x22 # rest) = Some (cs, rest)" by simp
      then show ?thesis
        using True low by (simp add: parse_chars_surrogate del: parse_chars.simps)
    next
      case False
      with True 3 have "parse_chars (escape (d # cs) @ 0x22 # rest) = Some (d # cs, rest)"
        by simp
      then show ?thesis
        using True False surrogate_bounds[of c]
        by (simp add: parse_chars_unicode_escape del: parse_chars.simps)
    qed
  next
    case nh: False
    show ?thesis
    proof (cases "is_low c")
      case True
      with nh 3 have "parse_chars (escape (d # cs) @ 0x22 # rest) = Some (d # cs, rest)"
        by simp
      then show ?thesis
        using nh True surrogate_bounds[of c]
        by (simp add: parse_chars_unicode_escape del: parse_chars.simps)
    next
      case False
      with nh 3 have "parse_chars (escape (d # cs) @ 0x22 # rest) = Some (d # cs, rest)"
        by simp
      then show ?thesis
        using nh False
        by (simp add: parse_chars_escape_unit del: parse_chars.simps)
    qed
  qed
qed

subsection \<open>First units\<close>

lemma asc_literals [simp]:
  "asc ''null'' = [0x6E, 0x75, 0x6C, 0x6C]"
  "asc ''true'' = [0x74, 0x72, 0x75, 0x65]"
  "asc ''false'' = [0x66, 0x61, 0x6C, 0x73, 0x65]"
  by (simp_all add: asc_def)

lemma stringify_start:
  "serializable nts ton v \<Longrightarrow> \<exists>c cs. JSON_stringify nts v = c # cs \<and> value_start c"
proof (cases v)
  case (JNumber x)
  assume "serializable nts ton v"
  with JNumber have "number_token (nts x)" by simp
  from number_token_start[OF this] show ?thesis
    using JNumber by (auto simp add: value_start_def)
qed (auto simp add: value_start_def quote_def)

lemma skip_ws_start: "value_start c \<Longrightarrow> skip_ws (c # cs) = c # cs"
  by (auto simp add: value_start_def skip_ws_def is_ws_def is_digit_def)

lemma skip_ws_stringify:
  "serializable nts ton v \<Longrightarrow> skip_ws (JSON_stringify nts v @ rest) = JSON_stringify nts v @ rest"
  using stringify_start[of nts ton v] by (auto simp add: skip_ws_start)

lemma skip_ws_punct [simp]:
  "skip_ws (0x2C # s) = 0x2C # s"
  "skip_ws (0x5D # s) = 0x5D # s"
  "skip_ws (0x7D # s) = 0x7D # s"
  "skip_ws (0x3A # s) = 0x3A # s"
  "skip_ws (0x22 # s) = 0x22 # s"
  by (simp_all add: skip_ws_def is_ws_def)

subsection \<open>Values\<close>

lemma elements_start:
  "xs \<noteq> [] \<Longrightarrow> list_all (serializable nts ton) xs \<Longrightarrow>
   \<exists>c cs. stringify_elements nts xs = c # cs \<and> value_start c"
proof (cases xs)
  case Nil
  assume "xs \<noteq> []"
  with Nil show ?thesis by simp
next
  case (Cons x ys)
  assume "list_all (serializable nts ton) xs"
  with Cons have "serializable nts ton x" by simp
  then obtain c cs where "JSON_stringify nts x = c # cs" "value_start c"
    using stringify_start by blast
  with Cons show ?thesis by (cases ys) auto
qed

lemma members_start:
  "kvs \<noteq> [] \<Longrightarrow> \<exists>cs. stringify_members nts kvs = 0x22 # cs"
proof (cases kvs)
  case Nil
  assume "kvs \<noteq> []"
  with Nil show ?thesis by simp
next
  case (Cons kv ys)
  then show ?thesis by (cases ys) (auto simp add: quote_def)
qed

lemma value_start_not_close:
  "value_start c \<Longrightarrow> c \<noteq> 0x5D \<and> c \<noteq> 0x7D"
  by (auto simp add: value_start_def is_digit_def)

lemma ordered_keys_last:
  "ordered_keys (ks @ [k]) \<Longrightarrow> is_index k \<Longrightarrow>
   \<forall>k0\<in>set ks. is_index k0 \<and> digits_value k0 < digits_value k"
  by (induction ks) (auto simp add: list_all_iff)

lemma ordered_keys_butlast: "ordered_keys (ks @ ks') \<Longrightarrow> ordered_keys ks"
  by (induction ks) simp_all

lemma insert_index_last:
  "\<forall>p\<in>set ps. is_index (fst p) \<and> digits_value (fst p) < digits_value k \<Longrightarrow>
   insert_index k v ps = ps @ [(k, v)]"
  by (induction ps) auto

lemma assign_last:
  assumes "k \<notin> fst ` set acc" and "ordered_keys (map fst acc @ [k])"
  shows "assign k v acc = acc @ [(k, v)]"
proof (cases "is_index k")
  case True
  from ordered_keys_last[OF assms(2) True]
  have "\<forall>p\<in>set acc. is_index (fst p) \<and> digits_value (fst p) < digits_value k" by simp
  then have "insert_index k v acc = acc @ [(k, v)]" by (rule insert_index_last)
  with True assms(1) show ?thesis by (simp add: assign_def)
next
  case False
  with assms(1) show ?thesis by (simp add: assign_def)
qed

lemma foldl_assign_ordered:
  "distinct (map fst (acc @ ms)) \<Longrightarrow> ordered_keys (map fst (acc @ ms)) \<Longrightarrow>
   foldl (\<lambda>acc kv. assign (fst kv) (snd kv) acc) acc ms = acc @ ms"
proof (induction ms arbitrary: acc)
  case Nil
  then show ?case by simp
next
  case (Cons m ms)
  from Cons.prems(1) have fresh: "fst m \<notin> fst ` set acc" by auto
  from Cons.prems(2) have "ordered_keys ((map fst acc @ [fst m]) @ map fst ms)" by simp
  then have ord: "ordered_keys (map fst acc @ [fst m])" by (rule ordered_keys_butlast)
  have "foldl (\<lambda>acc kv. assign (fst kv) (snd kv) acc) acc (m # ms)
        = foldl (\<lambda>acc kv. assign (fst kv) (snd kv) acc) (acc @ [m]) ms"
    using assign_last[OF fresh ord, of "snd m"] by simp
  also have "\<dots> = (acc @ [m]) @ ms"
    using Cons.prems by (intro Cons.IH) simp_all
  finally show ?case by simp
qed

lemma make_object_ordered:
  "distinct (map fst ms) \<Longrightarrow> ordered_keys (map fst ms) \<Longrightarrow> make_object ms = JObject ms"
  using foldl_assign_ordered[of "[]" ms] by (simp add: make_object_def)

lemma parse_value_number:
  assumes t: "number_token t" and f: "follow_ok rest"
  shows "parse_value ton (Suc n) (t @ rest) = Some (JNumber (ton t), rest)"
proof -
  obtain c cs where s: "t = c # cs" and c: "c = 0x2D \<or> is_digit c"
    using number_token_start[OF t] by blast
  then have ne: "c \<noteq> 0x6E" "c \<noteq> 0x74" "c \<noteq> 0x66" "c \<noteq> 0x22" "c \<noteq> 0x5B" "c \<noteq> 0x7B"
    by (auto simp add: is_digit_def)
  have vs: "value_start c" using c by (auto simp add: value_start_def)
  have "scan_number (c # cs @ rest) = Some (t, rest)"
    using number_token_append[OF t f] s by simp
  then show ?thesis
    using ne s skip_ws_start[OF vs, of "cs @ rest"] by simp
qed

lemma roundtrip:
  "serializable nts ton v \<longrightarrow> (\<forall>n rest. length (JSON_stringify nts v) \<le> n \<longrightarrow> follow_ok rest \<longrightarrow>
      parse_value ton n (JSON_stringify nts v @ rest) = Some (v, rest))"
  "xs \<noteq> [] \<longrightarrow> list_all (serializable nts ton) xs \<longrightarrow> (\<forall>n rest. length (stringify_elements nts xs) < n \<longrightarrow>
      parse_elements ton n (stringify_elements nts xs @ 0x5D # rest) = Some (xs, rest))"
  "kvs \<noteq> [] \<longrightarrow> list_all (\<lambda>kv. serializable nts ton (snd kv)) kvs \<longrightarrow>
      (\<forall>n rest. length (stringify_members nts kvs) < n \<longrightarrow>
        parse_members ton n (stringify_members nts kvs @ 0x7D # rest) = Some (kvs, rest))"
proof (induction nts v and nts xs and nts kvs rule: JSON_stringify_stringify_elements_stringify_members.induct)
  case (1 nts)
  show ?case
  proof (intro impI allI)
    fix n rest
    assume "length (JSON_stringify nts JNull) \<le> n"
    then obtain m where "n = Suc m" by (cases n) auto
    then show "parse_value ton n (JSON_stringify nts JNull @ rest) = Some (JNull, rest)"
      by (simp add: skip_ws_def is_ws_def parse_literal_def)
  qed
next
  case (2 nts b)
  show ?case
  proof (intro impI allI)
    fix n rest
    assume "length (JSON_stringify nts (JBool b)) \<le> n"
    then obtain m where "n = Suc m" by (cases n) (auto split: if_splits)
    then show "parse_value ton n (JSON_stringify nts (JBool b) @ rest) = Some (JBool b, rest)"
      by (simp add: skip_ws_def is_ws_def parse_literal_def)
  qed
next
  case (3 nts x)
  show ?case
  proof (intro impI allI)
    fix n rest
    assume wf: "serializable nts ton (JNumber x)"
      and "length (JSON_stringify nts (JNumber x)) \<le> n" and f: "follow_ok rest"
    moreover have "JSON_stringify nts (JNumber x) \<noteq> []"
      using stringify_start[OF wf] by auto
    ultimately obtain m where "n = Suc m" by (cases n) auto
    then show "parse_value ton n (JSON_stringify nts (JNumber x) @ rest) = Some (JNumber x, rest)"
      using parse_value_number[of "nts x" rest ton m] wf f by simp
  qed
next
  case (4 nts s)
  show ?case
  proof (intro impI allI)
    fix n rest
    assume "length (JSON_stringify nts (JString s)) \<le> n"
    then obtain m where "n = Suc m" by (cases n) (auto simp add: quote_def)
    then show "parse_value ton n (JSON_stringify nts (JString s) @ rest) = Some (JString s, rest)"
      by (simp add: quote_def parse_chars_escape)
  qed
next
  case (5 nts xs)
  show ?case
  proof (intro impI allI)
    fix n rest
    assume wf: "serializable nts ton (JArray xs)" and len: "length (JSON_stringify nts (JArray xs)) \<le> n"
    then obtain m where n: "n = Suc m" by (cases n) auto
    show "parse_value ton n (JSON_stringify nts (JArray xs) @ rest) = Some (JArray xs, rest)"
    proof (cases "xs = []")
      case True
      then show ?thesis using n by (simp add: skip_ws_def is_ws_def)
    next
      case False
      from wf have la: "list_all (serializable nts ton) xs" by simp
      obtain c cs where st: "stringify_elements nts xs = c # cs" "value_start c"
        using elements_start[OF False la] by blast
      have "length (stringify_elements nts xs) < m" using len n by simp
      with 5 False wf
      have pe: "parse_elements ton m (stringify_elements nts xs @ 0x5D # rest) = Some (xs, rest)"
        by simp
      have sk: "skip_ws (c # cs @ 0x5D # rest) = c # cs @ 0x5D # rest"
        using st(2) by (rule skip_ws_start)
      have "skip_ws (0x5B # c # cs @ 0x5D # rest) = 0x5B # c # cs @ 0x5D # rest"
        by (simp add: skip_ws_def is_ws_def)
      then show ?thesis
        using n st pe sk value_start_not_close[OF st(2)] by simp
    qed
  qed
next
  case (6 nts kvs)
  show ?case
  proof (intro impI allI)
    fix n rest
    assume wf: "serializable nts ton (JObject kvs)" and len: "length (JSON_stringify nts (JObject kvs)) \<le> n"
    then obtain m where n: "n = Suc m" by (cases n) auto
    show "parse_value ton n (JSON_stringify nts (JObject kvs) @ rest) = Some (JObject kvs, rest)"
    proof (cases "kvs = []")
      case True
      then show ?thesis using n by (simp add: skip_ws_def is_ws_def)
    next
      case False
      obtain cs where st: "stringify_members nts kvs = 0x22 # cs"
        using members_start[OF False] by blast
      have "length (stringify_members nts kvs) < m" using len n by simp
      with 6 False wf
      have pe: "parse_members ton m (stringify_members nts kvs @ 0x7D # rest) = Some (kvs, rest)"
        by simp
      have "skip_ws (0x7B # 0x22 # cs @ 0x7D # rest)
            = 0x7B # 0x22 # cs @ 0x7D # rest"
        by (simp add: skip_ws_def is_ws_def)
      then show ?thesis
        using n st pe wf by (simp add: make_object_ordered)
    qed
  qed
next
  case (7 nts)
  show ?case by simp
next
  case (8 nts x)
  show ?case
  proof (intro impI allI)
    fix n rest
    assume wf: "list_all (serializable nts ton) [x]" and len: "length (stringify_elements nts [x]) < n"
    then obtain m where n: "n = Suc m" by (cases n) auto
    with len have "length (JSON_stringify nts x) \<le> m" by simp
    with 8 wf have "parse_value ton m (JSON_stringify nts x @ 0x5D # rest) = Some (x, 0x5D # rest)"
      by simp
    then show "parse_elements ton n (stringify_elements nts [x] @ 0x5D # rest) = Some ([x], rest)"
      using n by simp
  qed
next
  case (9 nts x y ys)
  show ?case
  proof (intro impI allI)
    fix n rest
    assume wf: "list_all (serializable nts ton) (x # y # ys)"
      and len: "length (stringify_elements nts (x # y # ys)) < n"
    then obtain m where n: "n = Suc m" by (cases n) auto
    let ?tl = "stringify_elements nts (y # ys) @ 0x5D # rest"
    from len n have "length (JSON_stringify nts x) \<le> m" by simp
    with 9(1) wf have pv: "parse_value ton m (JSON_stringify nts x @ 0x2C # ?tl) = Some (x, 0x2C # ?tl)"
      by simp
    from len n have "length (stringify_elements nts (y # ys)) < m" by simp
    with 9(2) wf have pe: "parse_elements ton m ?tl = Some (y # ys, rest)"
      by simp
    show "parse_elements ton n (stringify_elements nts (x # y # ys) @ 0x5D # rest)
          = Some (x # y # ys, rest)"
      using n pv pe by simp
  qed
next
  case (10 nts)
  show ?case by simp
next
  case (11 nts kv)
  show ?case
  proof (intro impI allI)
    fix n rest
    assume wf: "list_all (\<lambda>kv. serializable nts ton (snd kv)) [kv]"
      and len: "length (stringify_members nts [kv]) < n"
    then obtain m where n: "n = Suc m" by (cases n) auto
    with len have "length (JSON_stringify nts (snd kv)) \<le> m" by simp
    with 11 wf
    have "parse_value ton m (JSON_stringify nts (snd kv) @ 0x7D # rest) = Some (snd kv, 0x7D # rest)"
      by simp
    then show "parse_members ton n (stringify_members nts [kv] @ 0x7D # rest) = Some ([kv], rest)"
      using n by (simp add: quote_def parse_chars_escape)
  qed
next
  case (12 nts kv kv' kvs)
  show ?case
  proof (intro impI allI)
    fix n rest
    assume wf: "list_all (\<lambda>kv. serializable nts ton (snd kv)) (kv # kv' # kvs)"
      and len: "length (stringify_members nts (kv # kv' # kvs)) < n"
    then obtain m where n: "n = Suc m" by (cases n) auto
    let ?tl = "stringify_members nts (kv' # kvs) @ 0x7D # rest"
    from len n have "length (JSON_stringify nts (snd kv)) \<le> m" by simp
    with 12(1) wf
    have pv: "parse_value ton m (JSON_stringify nts (snd kv) @ 0x2C # ?tl) = Some (snd kv, 0x2C # ?tl)"
      by simp
    from len n have "length (stringify_members nts (kv' # kvs)) < m" by simp
    with 12(2) wf have pe: "parse_members ton m ?tl = Some (kv' # kvs, rest)"
      by simp
    show "parse_members ton n (stringify_members nts (kv # kv' # kvs) @ 0x7D # rest)
          = Some (kv # kv' # kvs, rest)"
      using n pv pe by (simp add: quote_def parse_chars_escape)
  qed
qed

theorem JSON_roundtrip: "serializable nts ton v \<Longrightarrow> JSON_parse ton (JSON_stringify nts v) = Inr v"
proof -
  assume wf: "serializable nts ton v"
  have "length (JSON_stringify nts v) \<le> Suc (length (JSON_stringify nts v))" by simp
  with roundtrip(1) wf follow_ok_simps(1)
  have "parse_value ton (Suc (length (JSON_stringify nts v))) (JSON_stringify nts v @ []) = Some (v, [])"
    by blast
  then show ?thesis
    by (simp add: JSON_parse_def skip_ws_def del: parse_value.simps)
qed


subsection \<open>The depth bound\<close>

text \<open>
  A parse that succeeds with some bound succeeds with every bound that is at least the
  number of units it reads. So the bound that \<open>JSON_parse\<close> passes never cuts a parse
  short: an error of \<open>JSON_parse\<close> is an error of the text.
\<close>

lemma length_skip_ws: "length (skip_ws s) \<le> length s"
  by (simp add: skip_ws_def length_dropWhile_le)

lemma parse_chars_shorter: "parse_chars s = Some (str, r) \<Longrightarrow> length r < length s"
proof (induction s arbitrary: str r rule: parse_chars.induct)
  case 1
  then show ?case by simp
next
  case (2 c cs)
  show ?case
  proof (cases "c = 0x22")
    case True
    with "2.prems" show ?thesis by simp
  next
    case nq: False
    show ?thesis
    proof (cases "c = 0x5C")
      case True
      with nq "2.prems" obtain e cs' where cs: "cs = e # cs'"
        by (cases cs) auto
      show ?thesis
      proof (cases "e = 0x75")
        case u: True
        with True nq cs "2.prems" obtain ch s' where
          "hex4 (take 4 cs') = Some ch" "parse_chars (drop 4 cs') = Some (s', r)"
          by (auto split: option.splits)
        with "2.IH"(1)[OF nq True cs u] have "length r < length (drop 4 cs')" by blast
        with cs show ?thesis by simp
      next
        case nu: False
        with True nq cs "2.prems" obtain ch s' where
          "unescape e = Some ch" "parse_chars cs' = Some (s', r)"
          by (auto split: option.splits)
        with "2.IH"(2)[OF nq True cs nu] have "length r < length cs'" by blast
        with cs show ?thesis by simp
      qed
    next
      case nb: False
      with nq "2.prems" obtain s' where c: "\<not> c < 0x20"
        and p: "parse_chars cs = Some (s', r)"
        by (auto split: option.splits if_splits)
      with "2.IH"(3)[OF nq nb c] have "length r < length cs" by blast
      then show ?thesis by simp
    qed
  qed
qed

lemma parse_literal_shorter:
  "parse_literal word x s = Some (v, r) \<Longrightarrow> word \<noteq> [] \<Longrightarrow> length r < length s"
  by (auto simp add: parse_literal_def prefix_def split: if_splits)

lemma skip_ws_shorter: "skip_ws s = c # cs \<Longrightarrow> length cs < length s"
  using length_skip_ws[of s] by simp

lemma parse_value_flat:
  "skip_ws s = c # cs \<Longrightarrow> c \<noteq> 0x5B \<Longrightarrow> c \<noteq> 0x7B \<Longrightarrow>
   parse_value ton (Suc n) s = parse_value ton (Suc m) s"
  by simp

lemma parse_value_flat_shorter:
  assumes "skip_ws s = c # cs" and "c \<noteq> 0x5B" and "c \<noteq> 0x7B"
    and "parse_value ton (Suc n) s = Some (v, rest)"
  shows "length rest < length s"
proof -
  have "length rest < length (c # cs)"
    using assms
    by (auto split: if_splits option.splits
        dest!: parse_literal_shorter parse_chars_shorter scan_number_shorter)
  with length_skip_ws[of s] assms(1) show ?thesis by simp
qed

lemma parse_value_array:
  "skip_ws s = 0x5B # cs \<Longrightarrow>
   parse_value ton (Suc n) s =
     (case skip_ws cs of
        [] \<Rightarrow> None
      | d # ds \<Rightarrow>
          if d = 0x5D then Some (JArray [], ds)
          else (case parse_elements ton n cs of
                  None \<Rightarrow> None
                | Some (xs, rest) \<Rightarrow> Some (JArray xs, rest)))"
  by simp

lemma parse_value_object:
  "skip_ws s = 0x7B # cs \<Longrightarrow>
   parse_value ton (Suc n) s =
     (case skip_ws cs of
        [] \<Rightarrow> None
      | d # ds \<Rightarrow>
          if d = 0x7D then Some (JObject [], ds)
          else (case parse_members ton n cs of
                  None \<Rightarrow> None
                | Some (ms, rest) \<Rightarrow> Some (make_object ms, rest)))"
  by simp

lemma adequateD:
  "adequate p n \<Longrightarrow> p n s = Some (x, rest) \<Longrightarrow>
   length rest < length s \<and> (\<forall>k. length s - length rest \<le> k \<longrightarrow> p k s = Some (x, rest))"
  unfolding adequate_def by blast

lemma adequate_value_step:
  assumes Q: "adequate (parse_elements ton) n" and R: "adequate (parse_members ton) n"
  shows "adequate (parse_value ton) (Suc n)"
  unfolding adequate_def
proof (intro allI impI)
  fix s v rest
  assume a: "parse_value ton (Suc n) s = Some (v, rest)"
  then obtain c cs where sk: "skip_ws s = c # cs"
    by (cases "skip_ws s") auto
  have lcs: "length cs < length s" using sk by (rule skip_ws_shorter)
  consider (flat) "c \<noteq> 0x5B" "c \<noteq> 0x7B" | (arr) "c = 0x5B" | (obj) "c = 0x7B"
    by blast
  then show "length rest < length s \<and>
      (\<forall>k. length s - length rest \<le> k \<longrightarrow> parse_value ton k s = Some (v, rest))"
  proof cases
    case flat
    have sh: "length rest < length s"
      using sk flat a by (rule parse_value_flat_shorter)
    have "parse_value ton k s = Some (v, rest)" if "length s - length rest \<le> k" for k
    proof -
      from that sh obtain k' where "k = Suc k'" by (cases k) auto
      with parse_value_flat[OF sk flat, of ton k' n] a show ?thesis by (simp del: parse_value.simps)
    qed
    with sh show ?thesis by blast
  next
    case arr
    with sk have sk': "skip_ws s = 0x5B # cs" by simp
    from a obtain d ds where sd: "skip_ws cs = d # ds"
      unfolding parse_value_array[OF sk'] by (cases "skip_ws cs") auto
    have lds: "length ds < length cs" using sd by (rule skip_ws_shorter)
    show ?thesis
    proof (cases "d = 0x5D")
      case True
      with a sd have r: "rest = ds" "v = JArray []"
        unfolding parse_value_array[OF sk'] by auto
      have sh: "length rest < length s" using r lds lcs by simp
      have "parse_value ton k s = Some (v, rest)" if "length s - length rest \<le> k" for k
      proof -
        from that sh obtain k' where "k = Suc k'" by (cases k) auto
        then show ?thesis
          using sd True r by (simp add: parse_value_array[OF sk'] del: parse_value.simps)
      qed
      with sh show ?thesis by blast
    next
      case False
      with a sd obtain xs where pe: "parse_elements ton n cs = Some (xs, rest)" and v: "v = JArray xs"
        unfolding parse_value_array[OF sk'] by (auto split: option.splits)
      from adequateD[OF Q pe] have sh': "length rest < length cs"
        and en: "\<And>k. length cs - length rest \<le> k \<Longrightarrow> parse_elements ton k cs = Some (xs, rest)"
        by blast+
      have sh: "length rest < length s" using sh' lcs by simp
      have "parse_value ton k s = Some (v, rest)" if "length s - length rest \<le> k" for k
      proof -
        from that sh obtain k' where k: "k = Suc k'" by (cases k) auto
        with that lcs sh' have "length cs - length rest \<le> k'" by simp
        then have "parse_elements ton k' cs = Some (xs, rest)" by (rule en)
        then show ?thesis
          using sd False v k by (simp add: parse_value_array[OF sk'] del: parse_value.simps)
      qed
      with sh show ?thesis by blast
    qed
  next
    case obj
    with sk have sk': "skip_ws s = 0x7B # cs" by simp
    from a obtain d ds where sd: "skip_ws cs = d # ds"
      unfolding parse_value_object[OF sk'] by (cases "skip_ws cs") auto
    have lds: "length ds < length cs" using sd by (rule skip_ws_shorter)
    show ?thesis
    proof (cases "d = 0x7D")
      case True
      with a sd have r: "rest = ds" "v = JObject []"
        unfolding parse_value_object[OF sk'] by auto
      have sh: "length rest < length s" using r lds lcs by simp
      have "parse_value ton k s = Some (v, rest)" if "length s - length rest \<le> k" for k
      proof -
        from that sh obtain k' where "k = Suc k'" by (cases k) auto
        then show ?thesis
          using sd True r by (simp add: parse_value_object[OF sk'] del: parse_value.simps)
      qed
      with sh show ?thesis by blast
    next
      case False
      with a sd obtain ms where pe: "parse_members ton n cs = Some (ms, rest)"
        and v: "v = make_object ms"
        unfolding parse_value_object[OF sk'] by (auto split: option.splits)
      from adequateD[OF R pe] have sh': "length rest < length cs"
        and en: "\<And>k. length cs - length rest \<le> k \<Longrightarrow> parse_members ton k cs = Some (ms, rest)"
        by blast+
      have sh: "length rest < length s" using sh' lcs by simp
      have "parse_value ton k s = Some (v, rest)" if "length s - length rest \<le> k" for k
      proof -
        from that sh obtain k' where k: "k = Suc k'" by (cases k) auto
        with that lcs sh' have "length cs - length rest \<le> k'" by simp
        then have "parse_members ton k' cs = Some (ms, rest)" by (rule en)
        then show ?thesis
          using sd False v k by (simp add: parse_value_object[OF sk'] del: parse_value.simps)
      qed
      with sh show ?thesis by blast
    qed
  qed
qed

lemma parse_elements_Suc:
  "parse_elements ton (Suc n) s =
     (case parse_value ton n s of
        None \<Rightarrow> None
      | Some (x, rest) \<Rightarrow>
          (case skip_ws rest of
             [] \<Rightarrow> None
           | d # ds \<Rightarrow>
               if d = 0x2C then
                 (case parse_elements ton n ds of
                    None \<Rightarrow> None
                  | Some (xs, rest') \<Rightarrow> Some (x # xs, rest'))
               else if d = 0x5D then Some ([x], ds)
               else None))"
  by simp

lemma adequate_elements_step:
  assumes P: "adequate (parse_value ton) n" and Q: "adequate (parse_elements ton) n"
  shows "adequate (parse_elements ton) (Suc n)"
  unfolding adequate_def
proof (intro allI impI)
  fix s xs rest
  assume a: "parse_elements ton (Suc n) s = Some (xs, rest)"
  then obtain x r1 where pv: "parse_value ton n s = Some (x, r1)"
    unfolding parse_elements_Suc by (auto split: option.splits)
  with a obtain d ds where sd: "skip_ws r1 = d # ds"
    unfolding parse_elements_Suc by (cases "skip_ws r1") auto
  from adequateD[OF P pv] have l1: "length r1 < length s"
    and e1: "\<And>k. length s - length r1 \<le> k \<Longrightarrow> parse_value ton k s = Some (x, r1)"
    by blast+
  have lds: "length ds < length r1" using sd by (rule skip_ws_shorter)
  consider (comma) "d = 0x2C" | (close) "d \<noteq> 0x2C" "d = 0x5D"
    using a pv sd unfolding parse_elements_Suc by (auto split: if_splits)
  then show "length rest < length s \<and>
      (\<forall>k. length s - length rest \<le> k \<longrightarrow> parse_elements ton k s = Some (xs, rest))"
  proof cases
    case comma
    with a pv sd obtain xs' where pe: "parse_elements ton n ds = Some (xs', rest)"
      and xs: "xs = x # xs'"
      unfolding parse_elements_Suc by (auto split: option.splits)
    from adequateD[OF Q pe] have l2: "length rest < length ds"
      and e2: "\<And>k. length ds - length rest \<le> k \<Longrightarrow> parse_elements ton k ds = Some (xs', rest)"
      by blast+
    have sh: "length rest < length s" using l1 l2 lds by simp
    have "parse_elements ton k s = Some (xs, rest)" if "length s - length rest \<le> k" for k
    proof -
      from that sh obtain k' where k: "k = Suc k'" by (cases k) auto
      with that l1 l2 lds have "length s - length r1 \<le> k'" "length ds - length rest \<le> k'"
        by simp_all
      then have "parse_value ton k' s = Some (x, r1)" "parse_elements ton k' ds = Some (xs', rest)"
        using e1 e2 by blast+
      then show ?thesis
        using k sd comma xs by (simp add: parse_elements_Suc del: parse_value.simps)
    qed
    with sh show ?thesis by blast
  next
    case close
    with a pv sd have r: "rest = ds" "xs = [x]"
      unfolding parse_elements_Suc by auto
    have sh: "length rest < length s" using r l1 lds by simp
    have "parse_elements ton k s = Some (xs, rest)" if "length s - length rest \<le> k" for k
    proof -
      from that sh obtain k' where k: "k = Suc k'" by (cases k) auto
      with that l1 lds r have "length s - length r1 \<le> k'" by simp
      then have "parse_value ton k' s = Some (x, r1)" by (rule e1)
      then show ?thesis
        using k sd close r by (simp add: parse_elements_Suc del: parse_value.simps)
    qed
    with sh show ?thesis by blast
  qed
qed

lemma parse_members_Suc:
  "parse_members ton (Suc n) s =
     (case skip_ws s of
        [] \<Rightarrow> None
      | q # s1 \<Rightarrow>
          if q \<noteq> 0x22 then None
          else
            (case parse_chars s1 of
               None \<Rightarrow> None
             | Some (k, s2) \<Rightarrow>
                 (case skip_ws s2 of
                    [] \<Rightarrow> None
                  | colon # s3 \<Rightarrow>
                      if colon \<noteq> 0x3A then None
                      else
                        (case parse_value ton n s3 of
                           None \<Rightarrow> None
                         | Some (v, rest) \<Rightarrow>
                             (case skip_ws rest of
                                [] \<Rightarrow> None
                              | d # ds \<Rightarrow>
                                  if d = 0x2C then
                                    (case parse_members ton n ds of
                                       None \<Rightarrow> None
                                     | Some (ms, rest') \<Rightarrow> Some ((k, v) # ms, rest'))
                                  else if d = 0x7D then Some ([(k, v)], ds)
                                  else None)))))"
  by simp

lemma adequate_members_step:
  assumes P: "adequate (parse_value ton) n" and R: "adequate (parse_members ton) n"
  shows "adequate (parse_members ton) (Suc n)"
  unfolding adequate_def
proof (intro allI impI)
  fix s ms rest
  assume a: "parse_members ton (Suc n) s = Some (ms, rest)"
  then obtain s1 where sq: "skip_ws s = 0x22 # s1"
    unfolding parse_members_Suc by (cases "skip_ws s") (auto split: if_splits)
  with a obtain key s2 where pc: "parse_chars s1 = Some (key, s2)"
    unfolding parse_members_Suc by (auto split: option.splits)
  with a sq obtain s3 where sc: "skip_ws s2 = 0x3A # s3"
    unfolding parse_members_Suc by (cases "skip_ws s2") (auto split: if_splits)
  with a sq pc obtain v r1 where pv: "parse_value ton n s3 = Some (v, r1)"
    unfolding parse_members_Suc by (auto split: option.splits)
  with a sq pc sc obtain d ds where sd: "skip_ws r1 = d # ds"
    unfolding parse_members_Suc by (cases "skip_ws r1") auto
  have ls1: "length s1 < length s" using sq by (rule skip_ws_shorter)
  have ls2: "length s2 < length s1" using pc by (rule parse_chars_shorter)
  have ls3: "length s3 < length s2" using sc by (rule skip_ws_shorter)
  from adequateD[OF P pv] have l1: "length r1 < length s3"
    and e1: "\<And>k. length s3 - length r1 \<le> k \<Longrightarrow> parse_value ton k s3 = Some (v, r1)"
    by blast+
  have lds: "length ds < length r1" using sd by (rule skip_ws_shorter)
  consider (comma) "d = 0x2C" | (close) "d \<noteq> 0x2C" "d = 0x7D"
    using a sq pc sc pv sd unfolding parse_members_Suc by (auto split: if_splits)
  then show "length rest < length s \<and>
      (\<forall>k. length s - length rest \<le> k \<longrightarrow> parse_members ton k s = Some (ms, rest))"
  proof cases
    case comma
    with a sq pc sc pv sd obtain ms' where pm: "parse_members ton n ds = Some (ms', rest)"
      and ms: "ms = (key, v) # ms'"
      unfolding parse_members_Suc by (auto split: option.splits)
    from adequateD[OF R pm] have l2: "length rest < length ds"
      and e2: "\<And>k. length ds - length rest \<le> k \<Longrightarrow> parse_members ton k ds = Some (ms', rest)"
      by blast+
    have sh: "length rest < length s" using ls1 ls2 ls3 l1 l2 lds by simp
    have "parse_members ton k s = Some (ms, rest)" if "length s - length rest \<le> k" for k
    proof -
      from that sh obtain k' where k: "k = Suc k'" by (cases k) auto
      with that ls1 ls2 ls3 l1 l2 lds
      have "length s3 - length r1 \<le> k'" "length ds - length rest \<le> k'"
        by simp_all
      then have "parse_value ton k' s3 = Some (v, r1)" "parse_members ton k' ds = Some (ms', rest)"
        using e1 e2 by blast+
      then show ?thesis
        using k sq pc sc sd comma ms by (simp add: parse_members_Suc del: parse_value.simps)
    qed
    with sh show ?thesis by blast
  next
    case close
    with a sq pc sc pv sd have r: "rest = ds" "ms = [(key, v)]"
      unfolding parse_members_Suc by auto
    have sh: "length rest < length s" using r ls1 ls2 ls3 l1 lds by simp
    have "parse_members ton k s = Some (ms, rest)" if "length s - length rest \<le> k" for k
    proof -
      from that sh obtain k' where k: "k = Suc k'" by (cases k) auto
      with that ls1 ls2 ls3 l1 lds r have "length s3 - length r1 \<le> k'" by simp
      then have "parse_value ton k' s3 = Some (v, r1)" by (rule e1)
      then show ?thesis
        using k sq pc sc sd close r by (simp add: parse_members_Suc del: parse_value.simps)
    qed
    with sh show ?thesis by blast
  qed
qed

lemma adequate_all:
  "adequate (parse_value ton) n \<and> adequate (parse_elements ton) n \<and> adequate (parse_members ton) n"
proof (induction n)
  case 0
  show ?case by (simp add: adequate_def)
next
  case (Suc n)
  then show ?case
    by (simp add: adequate_value_step adequate_elements_step adequate_members_step)
qed

theorem parse_value_fuel:
  "parse_value ton n s = Some (v, rest) \<Longrightarrow> parse_value ton (Suc (length s)) s = Some (v, rest)"
proof -
  assume a: "parse_value ton n s = Some (v, rest)"
  have "adequate (parse_value ton) n" using adequate_all by blast
  from adequateD[OF this a]
  have "length s - length rest \<le> Suc (length s) \<longrightarrow>
      parse_value ton (Suc (length s)) s = Some (v, rest)"
    by blast
  then show ?thesis by (simp del: parse_value.simps)
qed

theorem JSON_parse_error_adequate:
  "JSON_parse ton s = Inl SyntaxError \<Longrightarrow> parse_value ton n s = Some (v, rest) \<Longrightarrow> skip_ws rest \<noteq> []"
proof -
  assume e: "JSON_parse ton s = Inl SyntaxError" and p: "parse_value ton n s = Some (v, rest)"
  from p have "parse_value ton (Suc (length s)) s = Some (v, rest)" by (rule parse_value_fuel)
  with e show ?thesis
    by (auto simp add: JSON_parse_def simp del: parse_value.simps split: if_splits)
qed

section \<open>The document model and the widgets: frame lemmas\<close>

lemmas model_defs = set_value_text_def triggerContentChange_def emit_contentChanged_def
  onContentChanged_def write_text_def set_dirty_def triggerStateChange_def
  onModelStateChanged_def handleDirtyState_def toString_def

lemma value_text_update_eq [simp]:
  "(m\<lparr> value_text := s \<rparr> = (m :: ('c, 'sel) code_model)) = (value_text m = s)"
  by (cases m) auto

text \<open>
  In the branch of \<^verbatim>\<open>_onContentChanged\<close> that assigns, the setter is the plain write: the
  definition of \<open>onContentChanged\<close> loses nothing.
\<close>

lemma onContentChanged_setter:
  "value_text (store w (editor_model w)) \<noteq> toString w \<Longrightarrow>
   set_value_text (editor_model w) (toString w) w = write_text (editor_model w) (toString w) w"
  by (auto simp add: set_value_text_def toString_def write_text_def Let_def)

lemma log_set_dirty:
  "log (set_dirty b w) = log w @
     (if b = dirty w then []
      else [StateChanged \<lparr> name = ''dirty'', oldValue = dirty w, newValue = b \<rparr>])"
  by (simp add: model_defs Let_def)

lemma log_set_readOnly:
  "log (set_readOnly b w) = log w @
     (if b = readOnly w then []
      else [StateChanged \<lparr> name = ''readOnly'', oldValue = readOnly w, newValue = b \<rparr>])"
  by (simp add: set_readOnly_def triggerStateChange_def onModelStateChanged_def Let_def)

lemma dirty_set_dirty [simp]: "dirty (set_dirty b w) = b"
  by (simp add: model_defs Let_def)

lemma readOnly_set_readOnly [simp]: "readOnly (set_readOnly b w) = b"
  by (simp add: set_readOnly_def triggerStateChange_def onModelStateChanged_def Let_def)

lemma log_emit_contentChanged:
  "log (emit_contentChanged w) = log w @ [ContentChanged (dirty w)] @
     (if contentChanged_connected w \<and> value_text (store w (editor_model w)) \<noteq> toString w
      then [ValueChanged (editor_model w) (toString w)] else [])"
  by (simp add: model_defs Let_def)

lemma dirty_emit_contentChanged [simp]: "dirty (emit_contentChanged w) = dirty w"
  by (simp add: model_defs Let_def)

lemma log_triggerContentChange:
  "log (triggerContentChange w) = log (emit_contentChanged w) @
     (if dirty w then []
      else [StateChanged \<lparr> name = ''dirty'', oldValue = False, newValue = True \<rparr>])"
  by (simp add: triggerContentChange_def log_set_dirty)

lemma dirty_triggerContentChange [simp]: "dirty (triggerContentChange w)"
  by (simp add: triggerContentChange_def)

lemma log_fromString:
  "log (fromString s w) =
     (if skip_unchanged w \<and> toString w = s then log w
      else log w @ [ValueChanged (context_model w) s, ContentChanged (dirty w)] @
        (if contentChanged_connected w \<and> editor_model w \<noteq> context_model w
              \<and> value_text (store w (editor_model w)) \<noteq> s
         then [ValueChanged (editor_model w) s] else []) @
        (if dirty w then []
         else [StateChanged \<lparr> name = ''dirty'', oldValue = False, newValue = True \<rparr>]))"
  by (simp add: fromString_def model_defs Let_def)

lemma toString_fromString [simp]: "toString (fromString s w) = s"
  by (simp add: fromString_def model_defs Let_def)


lemma buffer_writes_append [simp]:
  "buffer_writes a (xs @ ys) = buffer_writes a xs + buffer_writes a ys"
  by (induction a xs rule: buffer_writes.induct) simp_all

lemma editor_model_selections_delete [simp]:
  "editor_model (selections_delete key w) = editor_model w"
  by (simp add: selections_delete_def)

lemma selections_selections_delete [simp]:
  "selections (store (selections_delete key w) (editor_model w)) =
     filter (\<lambda>kv. fst kv \<noteq> key) (selections (store w (editor_model w)))"
  by (simp add: selections_delete_def)

lemma editor_model_prune_keys [simp]:
  "editor_model (prune_keys c keys w) = editor_model w"
  by (induction keys arbitrary: w) simp_all

lemma selections_prune_keys:
  "selections (store (prune_keys c keys w) (editor_model w)) =
     filter (\<lambda>kv. fst kv \<in> set keys \<longrightarrow> has c (fst kv)) (selections (store w (editor_model w)))"
proof (induction keys arbitrary: w)
  case Nil
  then show ?case by simp
next
  case (Cons key keys)
  let ?w' = "if \<not> has c key then selections_delete key w else w"
  have "selections (store (prune_keys c (key # keys) w) (editor_model w)) =
        selections (store (prune_keys c keys ?w') (editor_model ?w'))"
    by simp
  also have "\<dots> = filter (\<lambda>kv. fst kv \<in> set keys \<longrightarrow> has c (fst kv))
      (selections (store ?w' (editor_model w)))"
    by (subst Cons.IH) simp
  also have "\<dots> = filter (\<lambda>kv. fst kv \<in> set (key # keys) \<longrightarrow> has c (fst kv))
      (selections (store w (editor_model w)))"
    by (auto intro!: filter_cong)
  finally show ?case .
qed

lemma stringify_nonempty: "serializable nts ton v \<Longrightarrow> JSON_stringify nts v \<noteq> []"
  using stringify_start[of nts ton v] by auto

lemma toJSON_fromString:
  "toJSON ton (fromString s w) = JSON_parse ton (if s = [] then asc ''null'' else s)"
  using toString_fromString[of s w] by (simp add: toJSON_def toString_def)

lemma quote_nonempty [simp]: "quote s \<noteq> []"
  by (simp add: quote_def)

lemmas json_eval = JSON_parse_def asc_def skip_ws_def is_ws_def parse_literal_def
  scan_number_def scan_minus_def scan_int_def scan_frac_def scan_exp_def scan_sign_def
  is_digit_def quote_def escape_unit_def is_high_def is_low_def unicode_escape_def
  hex_digit_def unescape_def hex4_def hex_value_def make_object_def assign_def is_index_def
  digits_value_def

lemma parse_bad: "JSON_parse ton (asc ''{bad'') = Inl SyntaxError"
  by (simp add: json_eval)

lemma parse_null: "JSON_parse ton (asc ''null'') = Inr JNull"
  by (simp add: json_eval)

lemma parse_quoted_bad: "JSON_parse ton (quote (asc ''{bad'')) = Inr (JString (asc ''{bad''))"
  by (simp add: json_eval)

text \<open>
  Examples of what the parser accepts and how it orders the members of an object: a
  fraction and an exponent, an escape above \<^verbatim>\<open>00ff\<close>, and an array index written after
  another key.
\<close>

lemma parse_fraction_exponent:
  "JSON_parse ton (asc ''[1.5, -2e+21 ,0]'')
     = Inr (JArray [JNumber (ton (asc ''1.5'')), JNumber (ton (asc ''-2e+21'')),
                    JNumber (ton (asc ''0''))])"
  by (simp add: json_eval)

lemma parse_unicode_escape:
  "JSON_parse ton (0x22 # 0x5C # asc ''u20AC'' @ [0x22]) = Inr (JString [0x20AC])"
  by (simp add: json_eval)

lemma parse_leading_zero: "JSON_parse ton (asc ''01'') = Inl SyntaxError"
  by (simp add: json_eval)

lemma parse_index_key_first:
  "JSON_parse ton (0x7B # quote (asc ''b'') @ asc '':1,'' @ quote (asc ''2'') @ asc '':3}'')
     = Inr (JObject [(asc ''2'', JNumber (ton (asc ''3''))), (asc ''b'', JNumber (ton (asc ''1'')))])"
  by (simp add: json_eval)

text \<open>The two handlers of \<^verbatim>\<open>FileEditor\<close> with their local names unfolded.\<close>

lemma onPathChanged_unfold:
  "onPathChanged w =
     w\<lparr> store := (store w)(editor_model w :=
          (store w (editor_model w))\<lparr> mimeType := getMimeTypeByFilePath w (path w) \<rparr>),
        FileEditor_title_label := basename (after_last CHR '':'' (path w)) \<rparr>"
  by (simp add: onPathChanged_def Let_def)

lemma FileEditor_constructor_unfold:
  "FileEditor_constructor w = onPathChanged ((constructor w)\<lparr> pathChanged_connected := True \<rparr>)"
  by (simp add: FileEditor_constructor_def Let_def)

section \<open>Claims about the document model\<close>

lemmas example_defs = example_world_def example_document_def fresh_world_def
  FileEditor_constructor_unfold onPathChanged_unfold constructor_def roster_A_def
  default_style_def

text \<open>
  C3. Setting \<^verbatim>\<open>dirty\<close> or \<^verbatim>\<open>readOnly\<close> to its current value emits nothing and leaves the
  model as it is; setting it to another value stores the value and emits exactly one
  \<^verbatim>\<open>stateChanged\<close>, whose payload is the attribute name, the previous and the new value.
\<close>

theorem C3_state_setters:
  "(b = dirty w \<longrightarrow> set_dirty b w = w)
   \<and> (b \<noteq> dirty w \<longrightarrow>
        dirty (set_dirty b w) = b
        \<and> log (set_dirty b w) =
            log w @ [StateChanged \<lparr> name = ''dirty'', oldValue = dirty w, newValue = b \<rparr>])
   \<and> (b = readOnly w \<longrightarrow> set_readOnly b w = w)
   \<and> (b \<noteq> readOnly w \<longrightarrow>
        readOnly (set_readOnly b w) = b
        \<and> log (set_readOnly b w) =
            log w @ [StateChanged \<lparr> name = ''readOnly'', oldValue = readOnly w, newValue = b \<rparr>])"
  by (simp add: log_set_dirty log_set_readOnly) (simp add: set_dirty_def set_readOnly_def)

theorem C3_state_setters_witness:
  "\<not> dirty (example_world True 1)
   \<and> dirty (set_dirty True (example_world True 1))
   \<and> log (set_dirty True (example_world True 1)) =
       log (example_world True 1) @
       [StateChanged \<lparr> name = ''dirty'', oldValue = False, newValue = True \<rparr>]
   \<and> set_readOnly False (example_world True 1) = example_world True 1"
  using C3_state_setters [of True "example_world True 1"]
    C3_state_setters [of False "example_world True 1"]
  by (simp add: example_defs model_defs)




text \<open>
  C10. \<^verbatim>\<open>triggerContentChange\<close> emits \<^verbatim>\<open>contentChanged\<close> first and sets the dirty flag
  afterwards: the flag keeps its value while the slots of \<^verbatim>\<open>contentChanged\<close> run, the event
  carries that value (false on the first edit of a clean model), and the \<^verbatim>\<open>stateChanged\<close>
  for \<^verbatim>\<open>dirty\<close> comes after everything the slots did. The same order holds for a change of
  the buffer through \<^verbatim>\<open>fromString\<close>.
\<close>

theorem C10_content_before_dirty:
  "dirty (emit_contentChanged w) = dirty w
   \<and> dirty (triggerContentChange w)
   \<and> log (triggerContentChange w) =
       log w @ [ContentChanged (dirty w)] @
       (if contentChanged_connected w \<and> value_text (store w (editor_model w)) \<noteq> toString w
        then [ValueChanged (editor_model w) (toString w)] else []) @
       (if dirty w then []
        else [StateChanged \<lparr> name = ''dirty'', oldValue = False, newValue = True \<rparr>])
   \<and> (s \<noteq> toString w \<longrightarrow>
        log (fromString s w) =
          log w @ [ValueChanged (context_model w) s, ContentChanged (dirty w)] @
          (if contentChanged_connected w \<and> editor_model w \<noteq> context_model w
                \<and> value_text (store w (editor_model w)) \<noteq> s
           then [ValueChanged (editor_model w) s] else []) @
          (if dirty w then []
           else [StateChanged \<lparr> name = ''dirty'', oldValue = False, newValue = True \<rparr>]))"
  by (simp add: log_triggerContentChange log_emit_contentChanged log_fromString)

theorem C10_content_before_dirty_witness:
  "''hello'' \<noteq> toString (onContextReady (example_world True 1))
   \<and> \<not> dirty (onContextReady (example_world True 1))
   \<and> log (fromString ''hello'' (onContextReady (example_world True 1))) =
       log (onContextReady (example_world True 1)) @
       [ValueChanged 0 ''hello'', ContentChanged False, ValueChanged 1 ''hello'',
        StateChanged \<lparr> name = ''dirty'', oldValue = False, newValue = True \<rparr>]"
  using C10_content_before_dirty [of "onContextReady (example_world True 1)" "''hello''"]
  by (simp add: example_defs onContextReady_def model_defs Let_def)

section \<open>Claims about the widget\<close>

text \<open>
  C1. When the readiness handler runs on a widget that is not disposed, the text of the
  editor's model afterwards is the document model's \<^verbatim>\<open>toString()\<close>, which the handler has not
  changed, and the editing history is empty.
\<close>

theorem C1_ready_seeds_editor:
  "\<not> isDisposed w \<Longrightarrow>
   value_text (store (onContextReady w) (editor_model (onContextReady w)))
     = toString (onContextReady w)
   \<and> toString (onContextReady w) = toString w
   \<and> history (onContextReady w) = []"
  by (simp add: onContextReady_def model_defs Let_def)

theorem C1_ready_seeds_editor_witness:
  "\<not> isDisposed (fromString ''hello'' (example_world False 1))
   \<and> value_text (store (fromString ''hello'' (example_world False 1)) 1) = []
   \<and> value_text (store (onContextReady (fromString ''hello'' (example_world False 1))) 1)
       = ''hello''
   \<and> history (onContextReady (fromString ''hello'' (example_world False 1))) = []"
  using C1_ready_seeds_editor [of "fromString ''hello'' (example_world False 1)"]
  by (simp add: example_defs fromString_def onContextReady_def model_defs Let_def)

text \<open>
  C2. Echo suppression. Delivering \<^verbatim>\<open>contentChanged\<close> to a bound widget changes the editor's
  model if and only if the document model's text differs from the editor's; the log then
  holds one more write to the editor's buffer, and none when the two texts are equal.
\<close>

theorem C2_echo_suppression:
  "contentChanged_connected w \<Longrightarrow>
   (store (emit_contentChanged w) (editor_model w) \<noteq> store w (editor_model w))
      = (toString w \<noteq> value_text (store w (editor_model w)))
   \<and> buffer_writes (editor_model w) (log (emit_contentChanged w))
      = buffer_writes (editor_model w) (log w)
        + (if toString w \<noteq> value_text (store w (editor_model w)) then 1 else 0)
   \<and> (toString w = value_text (store w (editor_model w)) \<longrightarrow>
        emit_contentChanged w = w\<lparr> log := log w @ [ContentChanged (dirty w)] \<rparr>)"
  by (auto simp add: model_defs Let_def)

theorem C2_echo_suppression_witness:
  "contentChanged_connected (onContextReady (example_world False 1))
   \<and> toString (onContextReady (example_world False 1))
       = value_text (store (onContextReady (example_world False 1)) 1)
   \<and> buffer_writes 1 (log (emit_contentChanged (onContextReady (example_world False 1))))
       = buffer_writes 1 (log (onContextReady (example_world False 1)))
   \<and> store (emit_contentChanged (onContextReady (example_world False 1))) 1
       = store (onContextReady (example_world False 1)) 1"
  using C2_echo_suppression [of "onContextReady (example_world False 1)"]
  by (simp add: example_defs onContextReady_def model_defs Let_def)

text \<open>
  C9. When the roster's \<^verbatim>\<open>changed\<close> signal reaches the widget, the selections left in the
  editor's model are those whose key the roster has, in their order: every entry of a key
  absent from the roster is removed and every other entry is kept.
\<close>

theorem C9_stale_selections_pruned:
  "collaborators_changed_connected w \<Longrightarrow> collaborators w = Some c \<Longrightarrow>
   selections (store (emit_collaborators_changed w) (editor_model w)) =
     filter (\<lambda>kv. has c (fst kv)) (selections (store w (editor_model w)))"
  by (auto simp add: emit_collaborators_changed_def onCollaboratorsChanged_def
        selections_prune_keys intro!: filter_cong)

theorem C9_stale_selections_pruned_witness:
  "collaborators_changed_connected (two_selections (onConnected default_style (example_world True 1)))
   \<and> collaborators (two_selections (onConnected default_style (example_world True 1))) = Some roster_A
   \<and> selections (store (two_selections (onConnected default_style (example_world True 1))) 1)
       = [(''A'', 1), (''B'', 2)]
   \<and> selections (store (emit_collaborators_changed
         (two_selections (onConnected default_style (example_world True 1)))) 1) = [(''A'', 1)]"
  using C9_stale_selections_pruned
    [of "two_selections (onConnected default_style (example_world True 1))" roster_A]
  by (simp add: two_selections_def onConnected_def onCollaboratorsChanged_def example_defs
        model_defs has_def)

text \<open>
  C8. The readiness handler returns at once on a disposed widget, but the continuation of
  \<^verbatim>\<open>modelDB.connected\<close> has no such check: on a widget disposed before the connection
  resolves it sets the editor's \<^verbatim>\<open>uuid\<close> and selection style and connects the widget to the
  roster's \<^verbatim>\<open>changed\<close> signal, so that a later roster change prunes the selections of the
  disposed widget.
\<close>

theorem C8_connected_continuation_unguarded:
  "isDisposed (dispose (example_world True 1))
   \<and> onContextReady (dispose (example_world True 1)) = dispose (example_world True 1)
   \<and> uuid (dispose (example_world True 1)) = []
   \<and> uuid (onConnected default_style (dispose (example_world True 1))) = ''A''
   \<and> style_color (selectionStyle (onConnected default_style (dispose (example_world True 1)))) = ''red''
   \<and> \<not> collaborators_changed_connected (dispose (example_world True 1))
   \<and> collaborators_changed_connected (onConnected default_style (dispose (example_world True 1)))
   \<and> selections (store (emit_collaborators_changed (two_selections
         (onConnected default_style (dispose (example_world True 1))))) 1) = [(''A'', 1)]"
  by (simp add: two_selections_def onConnected_def onCollaboratorsChanged_def example_defs
        model_defs has_def dispose_def onContextReady_def emit_collaborators_changed_def
        selections_delete_def)

section \<open>The dirty marker\<close>




subsection \<open>Replacing the first occurrence\<close>

lemma replace_first_absent: "\<not> sublist pat s \<Longrightarrow> replace_first pat rep s = s"
proof (induction s)
  case Nil
  then show ?case by auto
next
  case (Cons c cs)
  then show ?case by (auto simp add: sublist_Cons_right)
qed





subsection \<open>Tokens\<close>







subsection \<open>The handler keeps the class in step\<close>




lemma marker_ok_clean:
  "marker_ok False cls \<Longrightarrow> marker_ok False (replace_first DIRTY_CLASS [] cls)"
  by (simp add: marker_ok_def replace_first_absent)



subsection \<open>The invariant of a bound widget\<close>

lemma dirty_handleDirtyState [simp]: "dirty (handleDirtyState w) = dirty w"
  by (simp add: handleDirtyState_def)


lemma bound_inv_set_readOnly [simp]: "bound_inv (set_readOnly b w) = bound_inv w"
  by (simp add: set_readOnly_def triggerStateChange_def onModelStateChanged_def bound_inv_def
        Let_def)

lemma bound_inv_write_text [simp]: "bound_inv (write_text a s w) = bound_inv w"
  by (simp add: write_text_def bound_inv_def)

lemma bound_inv_emit_contentChanged [simp]: "bound_inv (emit_contentChanged w) = bound_inv w"
  by (simp add: emit_contentChanged_def onContentChanged_def write_text_def bound_inv_def
        Let_def)


lemma bound_inv_selections_delete [simp]: "bound_inv (selections_delete key w) = bound_inv w"
  by (simp add: selections_delete_def bound_inv_def)

lemma bound_inv_prune_keys [simp]: "bound_inv (prune_keys c keys w) = bound_inv w"
  by (induction keys arbitrary: w) simp_all

lemma bound_inv_emit_collaborators_changed [simp]:
  "bound_inv (emit_collaborators_changed w) = bound_inv w"
  by (simp add: emit_collaborators_changed_def onCollaboratorsChanged_def split: option.splits)

lemma bound_inv_emit_pathChanged [simp]: "bound_inv (emit_pathChanged p w) = bound_inv w"
  by (simp add: emit_pathChanged_def onPathChanged_def bound_inv_def Let_def)





subsection \<open>The title of the document widget\<close>

text \<open>No operation writes the class of the title of \<^verbatim>\<open>FileEditor\<close>.\<close>

lemma FileEditor_title_className_set_dirty [simp]:
  "FileEditor_title_className (set_dirty b w) = FileEditor_title_className w"
  by (simp add: model_defs Let_def)

lemma FileEditor_title_className_set_readOnly [simp]:
  "FileEditor_title_className (set_readOnly b w) = FileEditor_title_className w"
  by (simp add: set_readOnly_def triggerStateChange_def onModelStateChanged_def
        handleDirtyState_def Let_def)

lemma FileEditor_title_className_set_value_text [simp]:
  "FileEditor_title_className (set_value_text a s w) = FileEditor_title_className w"
  by (simp add: model_defs Let_def)

lemma FileEditor_title_className_selections_delete [simp]:
  "FileEditor_title_className (selections_delete key w) = FileEditor_title_className w"
  by (simp add: selections_delete_def)

lemma FileEditor_title_className_prune_keys [simp]:
  "FileEditor_title_className (prune_keys c keys w) = FileEditor_title_className w"
  by (induction keys arbitrary: w) simp_all

lemma FileEditor_title_className_emit_collaborators_changed [simp]:
  "FileEditor_title_className (emit_collaborators_changed w) = FileEditor_title_className w"
  by (simp add: emit_collaborators_changed_def onCollaboratorsChanged_def split: option.splits)

lemma FileEditor_title_className_emit_pathChanged [simp]:
  "FileEditor_title_className (emit_pathChanged p w) = FileEditor_title_className w"
  by (simp add: emit_pathChanged_def onPathChanged_def Let_def)

lemma FileEditor_title_className_apply_action [simp]:
  "FileEditor_title_className (apply_action a w) = FileEditor_title_className w"
  by (cases a) (simp_all add: fromString_def)

lemma FileEditor_title_className_run [simp]:
  "FileEditor_title_className (run acts w) = FileEditor_title_className w"
  by (induction acts arbitrary: w) simp_all

lemma FileEditor_title_className_onContextReady [simp]:
  "FileEditor_title_className (onContextReady w) = FileEditor_title_className w"
  by (simp add: onContextReady_def handleDirtyState_def Let_def)

lemma FileEditor_title_className_constructor [simp]:
  "FileEditor_title_className (FileEditor_constructor w) = FileEditor_title_className w"
  by (simp add: FileEditor_constructor_def constructor_def onPathChanged_def Let_def)




section \<open>Claims about the structured accessors\<close>

text \<open>
  C6. For every JSON-serializable value \<open>v\<close>, \<^verbatim>\<open>fromJSON(v)\<close> succeeds and \<^verbatim>\<open>toJSON()\<close> on the
  resulting model returns \<open>v\<close>. The value may hold strings of any code units, unpaired
  surrogates included, arrays and objects of any depth, and every number that the
  runtime writes as a number token and reads back from it.
\<close>

theorem C6_json_roundtrip:
  "serializable nts ton v \<Longrightarrow> \<exists>w'. fromJSON nts v w = Inr w' \<and> toJSON ton w' = Inr v"
proof -
  assume wf: "serializable nts ton v"
  then have "JSON_stringify nts v \<noteq> []" by (rule stringify_nonempty)
  then have "toJSON ton (fromString (JSON_stringify nts v) w)
      = JSON_parse ton (JSON_stringify nts v)"
    by (simp add: toJSON_fromString)
  with wf show ?thesis
    by (simp add: fromJSON_def JSON_roundtrip)
qed

theorem C6_json_roundtrip_witness:
  "serializable literal literal example_json
   \<and> (\<exists>w'. fromJSON literal example_json (example_document True 1) = Inr w'
          \<and> toJSON literal w' = Inr example_json)"
  using C6_json_roundtrip [of literal literal example_json "example_document True 1"]
  by (simp add: example_json_def literal_def number_token_def json_eval)

text \<open>
  C7, as the spec states it, fails: \<^verbatim>\<open>fromJSON\<close> does not parse its argument. Given the
  malformed text \<^verbatim>\<open>{bad\<close> (a string, hence a JSON value) it raises nothing and stores the
  string literal, which \<^verbatim>\<open>toJSON\<close> reads back.
\<close>

theorem C7_fromJSON_malformed_counterexample:
  "JSON_parse literal (asc ''{bad'') = Inl SyntaxError
   \<and> fromJSON literal (JString (asc ''{bad'')) (example_document True 1)
       = Inr (fromString (quote (asc ''{bad'')) (example_document True 1))
   \<and> toJSON literal (fromString (quote (asc ''{bad'')) (example_document True 1))
       = Inr (JString (asc ''{bad''))"
  by (simp add: parse_bad parse_quoted_bad fromJSON_def toJSON_fromString)

text \<open>
  C7, amended. \<^verbatim>\<open>fromJSON\<close> never raises: it stores \<^verbatim>\<open>JSON.stringify\<close> of its argument.
  \<^verbatim>\<open>toJSON\<close> yields null on an empty buffer, and on a non-empty buffer it returns what
  \<^verbatim>\<open>JSON.parse\<close> returns for the text, its syntax error included: malformed content, which
  enters through \<^verbatim>\<open>fromString\<close>, fails in \<^verbatim>\<open>toJSON\<close>, and nothing recovers from it.
\<close>

theorem C7_parse_error_surfaces_in_toJSON:
  "fromJSON nts v w = Inr (fromString (JSON_stringify nts v) w)
   \<and> (toString w = [] \<longrightarrow> toJSON ton w = Inr JNull)
   \<and> (toString w \<noteq> [] \<longrightarrow> toJSON ton w = JSON_parse ton (toString w))
   \<and> (s \<noteq> [] \<longrightarrow> toJSON ton (fromString s w) = JSON_parse ton s)
   \<and> (s \<noteq> [] \<longrightarrow> JSON_parse ton s = Inl SyntaxError \<longrightarrow>
        toJSON ton (fromString s w) = Inl SyntaxError)"
  by (simp add: fromJSON_def toJSON_fromString parse_null[simplified])
    (simp add: toJSON_def toString_def parse_null[simplified])

theorem C7_parse_error_surfaces_in_toJSON_witness:
  "toString (example_document True 1) = []
   \<and> toJSON literal (example_document True 1) = Inr JNull
   \<and> asc ''{bad'' \<noteq> []
   \<and> JSON_parse literal (asc ''{bad'') = Inl SyntaxError
   \<and> toJSON literal (fromString (asc ''{bad'') (example_document True 1)) = Inl SyntaxError
   \<and> fromJSON literal (JString (asc ''{bad'')) (example_document True 1)
       = Inr (fromString (JSON_stringify literal (JString (asc ''{bad'')))
                (example_document True 1))"
  using C7_parse_error_surfaces_in_toJSON
    [of literal "JString (asc ''{bad'')" "example_document True 1" literal "asc ''{bad''"]
  by (simp add: parse_bad fromJSON_def toJSON_fromString)
    (simp add: toJSON_def toString_def parse_null[simplified] example_defs model_defs asc_def)

end
